theory Spec2Isabelle
  imports Main
begin

section \<open>JavaScript values\<close>

text \<open>
  The manifests, the partial manifests and the response objects of the program are
  untyped JavaScript values built by \<open>JSON.parse\<close> and then mutated. An object is the list
  of its properties in the order of \<open>Object.keys\<close> (keys are distinct in a value that
  JavaScript can build). An array has its elements and, as every JavaScript object, it
  may be given named properties (\<open>result.__origin = file\<close> does so when a manifest file
  holds an array); an array that \<open>JSON.parse\<close> returns has none. \<open>JUndef\<close> is \<open>undefined\<close>,
  the value of a property that is absent. The numbers of the model are the integers
  that JavaScript holds exactly and prints in decimal notation, those below \<open>2^53\<close> in
  magnitude; fractions and larger numbers are left out.
\<close>

datatype jsval =
    JUndef
  | JNull
  | JBool bool
  | JNum int
  | JStr string
  | JArr "jsval list" "(string \<times> jsval) list"
  | JObj "(string \<times> jsval) list"

text \<open>
  What a \<open>throw\<close> or a failing built-in leaves: the thrown value, a \<open>TypeError\<close>, or the
  \<open>SyntaxError\<close> of \<open>JSON.parse\<close>.
\<close>

datatype failure = Thrown jsval | TypeError | SyntaxError

text \<open>The result of an operation that may throw, and the sequencing of two of them.\<close>

definition andThen :: "failure + 'a \<Rightarrow> ('a \<Rightarrow> failure + 'b) \<Rightarrow> failure + 'b" where
  "andThen r f = (case r of Inl e \<Rightarrow> Inl e | Inr x \<Rightarrow> f x)"

text \<open>The condition of \<open>if (v)\<close>.\<close>

fun truthy :: "jsval \<Rightarrow> bool" where
  "truthy JUndef = False"
| "truthy JNull = False"
| "truthy (JBool b) = b"
| "truthy (JNum n) = (n \<noteq> 0)"
| "truthy (JStr s) = (s \<noteq> [])"
| "truthy (JArr xs ps) = True"
| "truthy (JObj kvs) = True"

text \<open>Decimal notation, as \<open>String(i)\<close> prints an index or an integer.\<close>

definition digit_char :: "nat \<Rightarrow> char" where
  "digit_char d = ''0123456789'' ! d"

fun show_nat :: "nat \<Rightarrow> string" where
  "show_nat n = (if n < 10 then [digit_char n] else show_nat (n div 10) @ [digit_char (n mod 10)])"

declare show_nat.simps [simp del]

definition show_int :: "int \<Rightarrow> string" where
  "show_int i = (if i < 0 then CHR ''-'' # show_nat (nat (- i)) else show_nat (nat i))"

text \<open>
  A property key is an array index when it is the decimal notation, without leading
  zeros, of a number below \<open>2^32 - 1\<close>.
\<close>

definition is_digit :: "char \<Rightarrow> bool" where
  "is_digit c = (c \<in> set ''0123456789'')"

definition digits_value :: "string \<Rightarrow> nat" where
  "digits_value s = foldl (\<lambda>n c. 10 * n + ((of_char c :: nat) - 48)) 0 s"

definition as_index :: "string \<Rightarrow> nat option" where
  "as_index s =
     (if s \<noteq> [] \<and> list_all is_digit s \<and> (length s = 1 \<or> hd s \<noteq> CHR ''0'')
         \<and> digits_value s < 4294967295
      then Some (digits_value s) else None)"

text \<open>
  A step of a property path is a name (\<open>.Metadata\<close>) or an index (\<open>[0]\<close>). On an object an
  index is the property named by its decimal notation; on an array a name that is an
  index is that index.
\<close>

datatype pkey = Key string | Idx nat

fun key_str :: "pkey \<Rightarrow> string" where
  "key_str (Key k) = k"
| "key_str (Idx i) = show_nat i"

fun key_index :: "pkey \<Rightarrow> nat option" where
  "key_index (Key k) = as_index k"
| "key_index (Idx i) = Some i"

definition lookup :: "(string \<times> jsval) list \<Rightarrow> string \<Rightarrow> jsval" where
  "lookup kvs k = (case map_of kvs k of None \<Rightarrow> JUndef | Some v \<Rightarrow> v)"

text \<open>
  \<open>o[k] = v\<close> on the properties of an object: in place when the object has the key, else
  as a new key. \<open>Object.keys\<close> lists the keys that are array indices first, in ascending
  order, and then the other keys in the order of their creation: a new key that is an
  index goes to its place among the indices, any other new key to the end.
\<close>

fun replace_value :: "(string \<times> jsval) list \<Rightarrow> string \<Rightarrow> jsval \<Rightarrow> (string \<times> jsval) list" where
  "replace_value [] k v = []"
| "replace_value ((k', v') # kvs) k v =
     (if k' = k then (k, v) # kvs else (k', v') # replace_value kvs k v)"

fun insert_index :: "nat \<Rightarrow> string \<Rightarrow> jsval \<Rightarrow> (string \<times> jsval) list \<Rightarrow> (string \<times> jsval) list" where
  "insert_index n k v [] = [(k, v)]"
| "insert_index n k v ((k', v') # kvs) =
     (case as_index k' of
        Some m \<Rightarrow> if m < n then (k', v') # insert_index n k v kvs else (k, v) # (k', v') # kvs
      | None \<Rightarrow> (k, v) # (k', v') # kvs)"

definition assign :: "(string \<times> jsval) list \<Rightarrow> string \<Rightarrow> jsval \<Rightarrow> (string \<times> jsval) list" where
  "assign kvs k v =
     (if map_of kvs k \<noteq> None then replace_value kvs k v
      else case as_index k of
             Some n \<Rightarrow> insert_index n k v kvs
           | None \<Rightarrow> kvs @ [(k, v)])"

text \<open>\<open>a[i] = v\<close> on an array: beyond its end the array grows, with holes that read \<open>undefined\<close>.\<close>

definition array_put :: "jsval list \<Rightarrow> nat \<Rightarrow> jsval \<Rightarrow> jsval list" where
  "array_put xs i v =
     (if i < length xs then xs[i := v] else xs @ replicate (i - length xs) JUndef @ [v])"

text \<open>
  \<open>v[k]\<close>, with the \<open>TypeError\<close> of reading from \<open>undefined\<close> or \<open>null\<close>. The names the
  program reads are never \<open>length\<close> nor inherited from a prototype, so an array answers
  for its indices and its named properties, a string for its characters, and a number
  or a boolean for nothing.
\<close>

fun getMember :: "jsval \<Rightarrow> pkey \<Rightarrow> failure + jsval" where
  "getMember JUndef k = Inl TypeError"
| "getMember JNull k = Inl TypeError"
| "getMember (JObj kvs) k = Inr (lookup kvs (key_str k))"
| "getMember (JArr xs ps) k =
     Inr (case key_index k of
            Some i \<Rightarrow> if i < length xs then xs ! i else JUndef
          | None \<Rightarrow> lookup ps (key_str k))"
| "getMember (JStr s) k =
     Inr (case key_index k of
            Some i \<Rightarrow> if i < length s then JStr [s ! i] else JUndef
          | None \<Rightarrow> JUndef)"
| "getMember (JBool b) k = Inr JUndef"
| "getMember (JNum n) k = Inr JUndef"

text \<open>
  \<open>o[k] = v\<close>. Outside strict mode (the compiled scripts have no \<open>use strict\<close>) an
  assignment to a property of a string, a number or a boolean is dropped silently.
\<close>

fun putMember :: "jsval \<Rightarrow> pkey \<Rightarrow> jsval \<Rightarrow> failure + jsval" where
  "putMember JUndef k v = Inl TypeError"
| "putMember JNull k v = Inl TypeError"
| "putMember (JObj kvs) k v = Inr (JObj (assign kvs (key_str k) v))"
| "putMember (JArr xs ps) k v =
     Inr (case key_index k of
            Some i \<Rightarrow> JArr (array_put xs i v) ps
          | None \<Rightarrow> JArr xs (assign ps (key_str k) v))"
| "putMember (JStr s) k v = Inr (JStr s)"
| "putMember (JBool b) k v = Inr (JBool b)"
| "putMember (JNum n) k v = Inr (JNum n)"

text \<open>\<open>v.name\<close> for a property name.\<close>

definition getProp :: "jsval \<Rightarrow> string \<Rightarrow> failure + jsval" where
  "getProp v k = getMember v (Key k)"

text \<open>
  Reading and writing along a path, as \<open>m.PackageManifest.Metadata[0].Tags\<close> and
  \<open>m.PackageManifest.Metadata[0].Tags = v\<close> do: every step but the last is a read, and the
  objects on the path are mutated in place, which the model renders by rebuilding them.
\<close>

fun getIn :: "pkey list \<Rightarrow> jsval \<Rightarrow> failure + jsval" where
  "getIn [] j = Inr j"
| "getIn (k # ks) j = andThen (getMember j k) (getIn ks)"

fun putIn :: "pkey list \<Rightarrow> jsval \<Rightarrow> jsval \<Rightarrow> failure + jsval" where
  "putIn [] v j = Inr v"
| "putIn [k] v j = putMember j k v"
| "putIn (k # ks) v j =
     andThen (getMember j k) (\<lambda>c. andThen (putIn ks v c) (\<lambda>c'. putMember j k c'))"

section \<open>The remote-error translator\<close>

definition credential_message :: string where
  "credential_message =
     ''Received response 401 (Not Authorized). Check that your personal access token is correct and hasn'' @ [CHR 0x27] @ ''t expired.''"

text \<open>
  \<open>try { v = JSON.parse(v) } catch (e) { throw v }\<close> on a string; \<open>JSON_parse\<close> is the
  runtime's parser, \<open>None\<close> where it throws.
\<close>

definition parse_or_throw :: "(string \<Rightarrow> jsval option) \<Rightarrow> jsval \<Rightarrow> failure + jsval" where
  "parse_or_throw JSON_parse v =
     (case v of
        JStr s \<Rightarrow> (case JSON_parse s of None \<Rightarrow> Inl (Thrown v) | Some w \<Rightarrow> Inr w)
      | _ \<Rightarrow> Inr v)"

text \<open>\<open>err\<close> never returns: its value is what it throws.\<close>

definition err :: "(string \<Rightarrow> jsval option) \<Rightarrow> jsval \<Rightarrow> failure" where
  "err JSON_parse obj =
     (case parse_or_throw JSON_parse obj of
        Inl f \<Rightarrow> f
      | Inr errorAsObj \<Rightarrow>
          (case getProp errorAsObj ''statusCode'' of
             Inl f \<Rightarrow> f
           | Inr statusCode \<Rightarrow>
               if statusCode = JNum 401 then Thrown (JStr credential_message)
               else
                 (case getProp errorAsObj ''body'' of
                    Inl f \<Rightarrow> f
                  | Inr body \<Rightarrow>
                      (case (if truthy body then parse_or_throw JSON_parse body else Inr body) of
                         Inl f \<Rightarrow> f
                       | Inr errorBodyObj \<Rightarrow>
                           (case getProp errorBodyObj ''message'' of
                              Inl f \<Rightarrow> f
                            | Inr message \<Rightarrow>
                                if truthy message then Thrown message
                                else Thrown errorBodyObj)))))"


text \<open>A parser that knows one document, for the examples.\<close>

definition message_parser :: "string \<Rightarrow> jsval option" where
  "message_parser s =
     (if s = ''{\"message\":\"X\"}'' then Some (JObj [(''message'', JStr ''X'')]) else None)"

section \<open>The content-type index of the archive\<close>

text \<open>\<open>VsixWriter.CONTENT_TYPE_MAP\<close>.\<close>

definition CONTENT_TYPE_MAP :: "(string \<times> string) list" where
  "CONTENT_TYPE_MAP =
     [(''txt'', ''text/plain''),
      (''pkgdef'', ''text/plain''),
      (''xml'', ''text/xml''),
      (''vsixmanifest'', ''text/xml''),
      (''vsomanifest'', ''application/json''),
      (''json'', ''application/json''),
      (''htm'', ''text/html''),
      (''html'', ''text/html''),
      (''rtf'', ''application/rtf''),
      (''pdf'', ''application/pdf''),
      (''gif'', ''image/gif''),
      (''jpg'', ''image/jpg''),
      (''jpeg'', ''image/jpg''),
      (''tiff'', ''image/tiff''),
      (''vsix'', ''application/zip''),
      (''zip'', ''application/zip''),
      (''dll'', ''application/octet-stream'')]"

text \<open>
  Node's \<open>path.extname\<close> on a path with forward slashes: trailing slashes are dropped, the
  base name is what follows the last slash, and the extension runs from the last dot of
  the base name to its end; it is empty when the base name has no dot, when its only dot
  is its first character, and for \<open>..\<close>.
\<close>

definition basename :: "string \<Rightarrow> string" where
  "basename p = rev (takeWhile (\<lambda>c. c \<noteq> CHR ''/'') (dropWhile (\<lambda>c. c = CHR ''/'') (rev p)))"

definition extname :: "string \<Rightarrow> string" where
  "extname p =
     (let b = basename p;
          e = CHR ''.'' # rev (takeWhile (\<lambda>c. c \<noteq> CHR ''.'') (rev b))
      in if CHR ''.'' \<notin> set b \<or> b = ''..'' \<or> length e = length b then [] else e)"

text \<open>
  Lodash's \<open>_.trimLeft(string)\<close> with no second argument removes leading whitespace, and
  \<open>_.unique\<close> keeps the first occurrence of each element, in order.
\<close>

definition is_whitespace :: "char \<Rightarrow> bool" where
  "is_whitespace c = (c \<in> set [CHR 0x09, CHR 0x0A, CHR 0x0B, CHR 0x0C, CHR 0x0D, CHR '' ''])"

definition trimLeft :: "string \<Rightarrow> string" where
  "trimLeft s = dropWhile is_whitespace s"

fun unique :: "'a list \<Rightarrow> 'a list" where
  "unique [] = []"
| "unique (x # xs) = x # unique (filter (\<lambda>y. y \<noteq> x) xs)"

text \<open>
  \<open>genContentTypesXml\<close> builds one \<open>Default\<close> element per element of \<open>uniqueExtensions\<close>;
  the model returns the list \<open>contentTypes.Types.Default\<close> as pairs of the attributes
  \<open>Extension\<close> and \<open>ContentType\<close>, which the XML builder then prints.
\<close>

definition content_type_of :: "string \<Rightarrow> string" where
  "content_type_of ext =
     (case map_of CONTENT_TYPE_MAP ext of
        None \<Rightarrow> ''application/octet-stream''
      | Some t \<Rightarrow> if t = [] then ''application/octet-stream'' else t)"

definition genContentTypesXml :: "string list \<Rightarrow> (string \<times> string) list" where
  "genContentTypesXml fileNames =
     (let uniqueExtensions = unique (map (\<lambda>f. trimLeft (extname f)) fileNames)
      in map (\<lambda>ext. (ext, content_type_of ext)) uniqueExtensions)"


section \<open>Library functions on JavaScript values\<close>

text \<open>
  The program calls lodash (\<open>_.isArray\<close>, \<open>_.merge\<close>, \<open>_.get\<close>, \<open>_.set\<close>, \<open>_.remove\<close>,
  \<open>_.omit\<close>, \<open>_.startsWith\<close>) and built-ins of the language (\<open>join\<close>, \<open>concat\<close>,
  \<open>toLowerCase\<close>, \<open>replace\<close>, \<open>Object.keys\<close>). They are modelled here as lodash 3 (release
  3.10) and ECMAScript 2015 define them on the values above.
\<close>

definition isArray :: "jsval \<Rightarrow> bool" where
  "isArray v = (case v of JArr xs ps \<Rightarrow> True | _ \<Rightarrow> False)"

definition isObject :: "jsval \<Rightarrow> bool" where
  "isObject v = (case v of JArr xs ps \<Rightarrow> True | JObj kvs \<Rightarrow> True | _ \<Rightarrow> False)"

text \<open>
  \<open>s.toLowerCase()\<close>, on the letters \<open>A\<close> to \<open>Z\<close>: the words that the program compares a
  lowered string with have no letter that another character is lowered to.
\<close>

definition lower_char :: "char \<Rightarrow> char" where
  "lower_char c =
     (case map_of (zip ''ABCDEFGHIJKLMNOPQRSTUVWXYZ'' ''abcdefghijklmnopqrstuvwxyz'') c of
        None \<Rightarrow> c
      | Some l \<Rightarrow> l)"

definition toLowerCase :: "string \<Rightarrow> string" where
  "toLowerCase s = map lower_char s"


text \<open>
  \<open>Object.keys(v)\<close>: a \<open>TypeError\<close> on \<open>undefined\<close> and \<open>null\<close>; an array answers with its
  indices and the names of its properties, a string with its indices, a number and a
  boolean with no key.
\<close>

fun object_keys :: "jsval \<Rightarrow> failure + string list" where
  "object_keys JUndef = Inl TypeError"
| "object_keys JNull = Inl TypeError"
| "object_keys (JObj kvs) = Inr (map fst kvs)"
| "object_keys (JArr xs ps) = Inr (map show_nat [0 ..< length xs] @ map fst ps)"
| "object_keys (JStr s) = Inr (map show_nat [0 ..< length s])"
| "object_keys (JBool b) = Inr []"
| "object_keys (JNum n) = Inr []"

text \<open>
  \<open>String(v)\<close> and \<open>a.join(",")\<close>. In a join, \<open>undefined\<close> and \<open>null\<close> print as the empty
  string, an array prints as its own join and an object as \<open>[object Object]\<close>; a value
  whose own property \<open>toString\<close> hides the inherited method (a JSON value is no function)
  cannot be converted, which is a \<open>TypeError\<close>. An integer prints in decimal notation, as
  JavaScript prints the numbers of the model (a number from \<open>10^21\<close> on it prints with an
  exponent, which \<open>show_int\<close> does not follow).
\<close>

function toStr :: "jsval \<Rightarrow> failure + string"
  and joinStr :: "jsval list \<Rightarrow> failure + string"
where
  "toStr JUndef = Inr ''undefined''"
| "toStr JNull = Inr ''null''"
| "toStr (JBool b) = Inr (if b then ''true'' else ''false'')"
| "toStr (JNum n) = Inr (show_int n)"
| "toStr (JStr s) = Inr s"
| "toStr (JArr xs ps) =
     (if map_of ps ''toString'' \<noteq> None then Inl TypeError
      else if map_of ps ''join'' \<noteq> None then Inr ''[object Array]''
      else joinStr xs)"
| "toStr (JObj kvs) =
     (if map_of kvs ''toString'' \<noteq> None then Inl TypeError else Inr ''[object Object]'')"
| "joinStr [] = Inr []"
| "joinStr (x # xs) =
     andThen (if x = JUndef \<or> x = JNull then Inr [] else toStr x)
       (\<lambda>a. if xs = [] then Inr a else andThen (joinStr xs) (\<lambda>b. Inr (a @ '','' @ b)))"
  by pat_completeness auto
termination
  by (relation "measure (\<lambda>a. case a of Inl v \<Rightarrow> size v | Inr xs \<Rightarrow> size_list size xs)") auto

text \<open>\<open>value.join(",")\<close> on an array.\<close>

fun join_comma :: "jsval \<Rightarrow> failure + string" where
  "join_comma (JArr xs ps) = (if map_of ps ''join'' \<noteq> None then Inl TypeError else joinStr xs)"
| "join_comma v = Inl TypeError"

subsection \<open>\<open>_.merge\<close>\<close>

text \<open>
  \<open>_.merge(object, source, customizer)\<close> mutates and returns \<open>object\<close>. It visits the
  indices of a source array and the own keys of any other source. A source value that
  is an array or an object is merged recursively into the destination's value when that
  is of the same kind, and into a fresh array or object otherwise (a destination string
  is first copied to an array of its characters); any other source value is assigned.
  A customizer is asked first, and what it returns, unless \<open>undefined\<close>, is assigned
  instead. Lodash skips the assignment of a value to a key that holds that value
  already; the model assigns, to the same effect. Every \<open>JObj\<close> is a plain object, and the
  values are trees, as \<open>JSON.parse\<close> builds them (no object is met twice).
\<close>

type_synonym customizer = "(jsval \<Rightarrow> jsval \<Rightarrow> jsval) option"

definition custom :: "customizer \<Rightarrow> jsval \<Rightarrow> jsval \<Rightarrow> jsval" where
  "custom c objectValue sourceValue =
     (case c of None \<Rightarrow> JUndef | Some f \<Rightarrow> f objectValue sourceValue)"

text \<open>\<open>object[key]\<close>, \<open>object[key] = v\<close> and \<open>key in object\<close> on an array or an object.\<close>

definition member :: "jsval \<Rightarrow> pkey \<Rightarrow> jsval" where
  "member object key = (case getMember object key of Inl e \<Rightarrow> JUndef | Inr v \<Rightarrow> v)"

definition put :: "jsval \<Rightarrow> pkey \<Rightarrow> jsval \<Rightarrow> jsval" where
  "put object key v = (case putMember object key v of Inl e \<Rightarrow> object | Inr w \<Rightarrow> w)"

fun has_key :: "jsval \<Rightarrow> pkey \<Rightarrow> bool" where
  "has_key (JObj kvs) k = (map_of kvs (key_str k) \<noteq> None)"
| "has_key (JArr xs ps) k =
     (case key_index k of Some i \<Rightarrow> i < length xs | None \<Rightarrow> map_of ps (key_str k) \<noteq> None)"
| "has_key v k = False"

definition assignValue :: "customizer \<Rightarrow> bool \<Rightarrow> jsval \<Rightarrow> pkey \<Rightarrow> jsval \<Rightarrow> jsval" where
  "assignValue c isSrcArr object key srcValue =
     (let value = member object key;
          r = custom c value srcValue;
          result = (if r = JUndef then srcValue else r)
      in if result \<noteq> JUndef \<or> (isSrcArr \<and> \<not> has_key object key)
         then put object key result else object)"

text \<open>
  The array that the merge of a source array starts from,
  \<open>isArray(value) ? value : (isArrayLike(value) ? arrayCopy(value) : [])\<close>: the
  destination's value when that is an array, a copy of it when it is array-like, and an
  empty array otherwise. Array-like are a string and an object whose property \<open>length\<close>
  is a number from 0 to \<open>2^53 - 1\<close>; the copy has that many elements, read from the
  indices of the value. (JavaScript builds no array of \<open>2^32\<close> elements or more: there
  \<open>Array(length)\<close> throws a \<open>RangeError\<close>, which the model, whose lists have no bound, does
  not follow.)
\<close>

definition array_start :: "jsval \<Rightarrow> jsval" where
  "array_start value =
     (case value of
        JArr ys qs \<Rightarrow> value
      | JStr s \<Rightarrow> JArr (map (\<lambda>ch. JStr [ch]) s) []
      | JObj kvs \<Rightarrow>
          (case lookup kvs ''length'' of
             JNum n \<Rightarrow>
               if 0 \<le> n \<and> n \<le> 9007199254740991
               then JArr (map (\<lambda>i. lookup kvs (show_nat i)) [0 ..< nat n]) []
               else JArr [] []
           | _ \<Rightarrow> JArr [] [])
      | _ \<Rightarrow> JArr [] [])"

fun mergeChars :: "customizer \<Rightarrow> jsval \<Rightarrow> nat \<Rightarrow> string \<Rightarrow> jsval" where
  "mergeChars c object i [] = object"
| "mergeChars c object i (ch # s) =
     mergeChars c (assignValue c False object (Idx i) (JStr [ch])) (Suc i) s"

function baseMerge :: "customizer \<Rightarrow> jsval \<Rightarrow> jsval \<Rightarrow> jsval"
  and mergeElems :: "customizer \<Rightarrow> jsval \<Rightarrow> nat \<Rightarrow> jsval list \<Rightarrow> jsval"
  and mergeProps :: "customizer \<Rightarrow> jsval \<Rightarrow> (string \<times> jsval) list \<Rightarrow> jsval"
  and mergeValue :: "customizer \<Rightarrow> bool \<Rightarrow> jsval \<Rightarrow> pkey \<Rightarrow> jsval \<Rightarrow> jsval"
where
  "baseMerge c object source =
     (if \<not> isObject object then object
      else case source of
             JArr xs ps \<Rightarrow> mergeElems c object 0 xs
           | JObj kvs \<Rightarrow> mergeProps c object kvs
           | JStr s \<Rightarrow> mergeChars c object 0 s
           | _ \<Rightarrow> object)"
| "mergeElems c object i [] = object"
| "mergeElems c object i (x # xs) = mergeElems c (mergeValue c True object (Idx i) x) (Suc i) xs"
| "mergeProps c object [] = object"
| "mergeProps c object ((k, v) # kvs) = mergeProps c (mergeValue c False object (Key k) v) kvs"
| "mergeValue c isSrcArr object key srcValue =
     (if isObject srcValue then
        (let value = member object key;
             r = custom c value srcValue
         in if r = JUndef then
              (case srcValue of
                 JArr xs ps \<Rightarrow> put object key (baseMerge c (array_start value) srcValue)
               | _ \<Rightarrow>
                   put object key
                     (baseMerge c (case value of JObj kvs \<Rightarrow> value | _ \<Rightarrow> JObj []) srcValue))
            else put object key r)
      else assignValue c isSrcArr object key srcValue)"
  by pat_completeness auto
termination
  by (relation "measure (\<lambda>a. case a of
         Inl (Inl (c, object, source)) \<Rightarrow> 2 * size source
       | Inl (Inr (c, object, i, xs)) \<Rightarrow> 2 * size_list size xs + 1
       | Inr (Inl (c, object, kvs)) \<Rightarrow> 2 * size_list (size_prod (\<lambda>k. 0) size) kvs + 1
       | Inr (Inr (c, isSrcArr, object, key, srcValue)) \<Rightarrow> 2 * size srcValue + 1)")
    auto

declare baseMerge.simps [simp del] mergeValue.simps [simp del]

definition merge_lodash :: "customizer \<Rightarrow> jsval \<Rightarrow> jsval \<Rightarrow> jsval" where
  "merge_lodash c object source =
     (if object = JUndef \<or> object = JNull then object
      else if truthy source then baseMerge c object source else object)"

section \<open>The merge engine\<close>

text \<open>A loop body that may throw, run over a list: \<open>xs.forEach(f)\<close>.\<close>

fun forEach :: "('s \<Rightarrow> 'a \<Rightarrow> failure + 's) \<Rightarrow> 'a list \<Rightarrow> 's \<Rightarrow> failure + 's" where
  "forEach f [] s = Inr s"
| "forEach f (x # xs) s = andThen (f s x) (forEach f xs)"

text \<open>The elements \<open>forEach\<close> visits when it is called as a method of \<open>v\<close>.\<close>

fun elements :: "jsval \<Rightarrow> failure + jsval list" where
  "elements (JArr xs ps) = (if map_of ps ''forEach'' \<noteq> None then Inl TypeError else Inr xs)"
| "elements v = Inl TypeError"

subsection \<open>\<open>Merger.mergeKey\<close>\<close>

text \<open>The customizer of the \<open>contributions\<close> case: \<open>objectValue.concat(sourceValue)\<close>.\<close>

definition concat_customizer :: "jsval \<Rightarrow> jsval \<Rightarrow> jsval" where
  "concat_customizer objectValue sourceValue =
     (case objectValue of
        JArr xs ps \<Rightarrow> JArr (xs @ (case sourceValue of JArr ys qs \<Rightarrow> ys | v \<Rightarrow> [v])) []
      | _ \<Rightarrow> JUndef)"

definition Metadata0 :: "pkey list" where
  "Metadata0 = [Key ''PackageManifest'', Key ''Metadata'', Idx 0]"

definition IdentityAttrs :: "pkey list" where
  "IdentityAttrs = Metadata0 @ [Key ''Identity'', Idx 0, Key ''$'']"

definition AssetList :: "pkey list" where
  "AssetList = [Key ''PackageManifest'', Key ''Assets'', Idx 0, Key ''Asset'']"

text \<open>\<open>vsoManifest.name = value; vsixManifest. ... = value\<close>.\<close>

definition set_both ::
  "string \<Rightarrow> pkey list \<Rightarrow> jsval \<Rightarrow> jsval \<Rightarrow> jsval \<Rightarrow> failure + (jsval \<times> jsval)" where
  "set_both name path value vsoManifest vsixManifest =
     andThen (putMember vsoManifest (Key name) value) (\<lambda>vso.
     andThen (putIn path value vsixManifest) (\<lambda>vsix. Inr (vso, vsix)))"

definition set_vsix ::
  "pkey list \<Rightarrow> jsval \<Rightarrow> jsval \<Rightarrow> jsval \<Rightarrow> failure + (jsval \<times> jsval)" where
  "set_vsix path value vsoManifest vsixManifest =
     andThen (putIn path value vsixManifest) (\<lambda>vsix. Inr (vsoManifest, vsix))"

text \<open>\<open>if (_.isArray(value)) { value = value.join(",") }\<close>.\<close>

definition joined :: "jsval \<Rightarrow> failure + jsval" where
  "joined value =
     (if isArray value then andThen (join_comma value) (\<lambda>s. Inr (JStr s)) else Inr value)"

text \<open>
  \<open>if (!vsoManifest.f) { vsoManifest.f = {} }; _.merge(vsoManifest.f, value, customizer)\<close>.
\<close>

definition merge_field :: "customizer \<Rightarrow> string \<Rightarrow> jsval \<Rightarrow> jsval \<Rightarrow> failure + jsval" where
  "merge_field c name value vsoManifest =
     andThen (getMember vsoManifest (Key name)) (\<lambda>current.
     andThen (if \<not> truthy current then putMember vsoManifest (Key name) (JObj [])
              else Inr vsoManifest) (\<lambda>vso.
     andThen (getMember vso (Key name)) (\<lambda>object.
       putMember vso (Key name) (merge_lodash c object value))))"

text \<open>\<open>path.replace(/\\/g, "/")\<close>.\<close>

definition slashes :: "string \<Rightarrow> string" where
  "slashes s = map (\<lambda>c. if c = CHR 0x5C then CHR ''/'' else c) s"

text \<open>The element that the \<open>assets\<close> case pushes for one declared asset.\<close>

definition asset_entry :: "jsval \<Rightarrow> failure + jsval" where
  "asset_entry asset =
     andThen (getProp asset ''type'') (\<lambda>t.
     andThen (getProp asset ''path'') (\<lambda>p.
       case p of
         JStr s \<Rightarrow>
           Inr (JObj [(''$'', JObj [(''Type'', t), (''d:Source'', JStr ''File''),
                                    (''Path'', JStr (slashes s))])])
       | _ \<Rightarrow> Inl TypeError))"

text \<open>\<open>vsixManifest.PackageManifest.Assets[0].Asset.push(entry)\<close>.\<close>

definition push_asset :: "jsval \<Rightarrow> jsval \<Rightarrow> failure + jsval" where
  "push_asset vsixManifest asset =
     andThen (getIn AssetList vsixManifest) (\<lambda>list.
     andThen (asset_entry asset) (\<lambda>entry.
       case list of
         JArr es ps \<Rightarrow>
           if map_of ps ''push'' \<noteq> None then Inl TypeError
           else putIn AssetList (JArr (es @ [entry]) ps) vsixManifest
       | _ \<Rightarrow> Inl TypeError))"

definition mergeKey :: "string \<Rightarrow> jsval \<Rightarrow> jsval \<Rightarrow> jsval \<Rightarrow> failure + (jsval \<times> jsval)" where
  "mergeKey key value vsoManifest vsixManifest =
     (let k = toLowerCase key in
      if k = ''namespace'' then
        set_both ''namespace'' (IdentityAttrs @ [Key ''Id'']) value vsoManifest vsixManifest
      else if k = ''version'' then
        set_both ''version'' (IdentityAttrs @ [Key ''Version'']) value vsoManifest vsixManifest
      else if k = ''name'' then
        set_both ''name'' (Metadata0 @ [Key ''DisplayName'', Idx 0]) value vsoManifest vsixManifest
      else if k = ''description'' then
        set_both ''description'' (Metadata0 @ [Key ''Description'', Idx 0, Key ''_'']) value
          vsoManifest vsixManifest
      else if k = ''publisher'' then
        set_vsix (IdentityAttrs @ [Key ''Publisher'']) value vsoManifest vsixManifest
      else if k = ''releasenotes'' then
        set_vsix (Metadata0 @ [Key ''ReleaseNotes'']) (JArr [value] []) vsoManifest vsixManifest
      else if k = ''tags'' then
        andThen (joined value) (\<lambda>v.
          set_vsix (Metadata0 @ [Key ''Tags'']) (JArr [v] []) vsoManifest vsixManifest)
      else if k = ''vsoflags'' then
        andThen (joined value) (\<lambda>v.
          set_vsix (Metadata0 @ [Key ''VSOFlags'']) (JArr [v] []) vsoManifest vsixManifest)
      else if k = ''categories'' then
        andThen (joined value) (\<lambda>v.
          set_vsix (Metadata0 @ [Key ''Categories'']) (JArr [v] []) vsoManifest vsixManifest)
      else if k = ''baseuri'' then
        andThen (putMember vsoManifest (Key ''baseUri'') value) (\<lambda>vso. Inr (vso, vsixManifest))
      else if k = ''contributions'' then
        andThen (merge_field (Some concat_customizer) ''contributions'' value vsoManifest)
          (\<lambda>vso. Inr (vso, vsixManifest))
      else if k = ''contributionpoints'' then
        andThen (merge_field None ''contributionPoints'' value vsoManifest)
          (\<lambda>vso. Inr (vso, vsixManifest))
      else if k = ''contributiontypes'' then
        andThen (merge_field None ''contributionTypes'' value vsoManifest)
          (\<lambda>vso. Inr (vso, vsixManifest))
      else if k = ''assets'' then
        (if isArray value then
           andThen (putIn [Key ''PackageManifest'', Key ''Assets'']
                      (JArr [JObj [(''Asset'', JArr [] [])]] []) vsixManifest) (\<lambda>vsix.
           andThen (elements value) (\<lambda>assets.
           andThen (forEach push_asset assets vsix) (\<lambda>vsix'. Inr (vsoManifest, vsix'))))
         else Inr (vsoManifest, vsixManifest))
      else Inr (vsoManifest, vsixManifest))"

subsection \<open>\<open>Merger.merge\<close>\<close>

text \<open>
  What the environment gives to \<open>merge\<close>: \<open>JSON.parse\<close> (\<open>None\<close> where it throws),
  \<open>path.isAbsolute\<close>, the path arithmetic
  \<open>path_rebase root origin p = path.relative(root, path.join(path.dirname(origin), p))\<close>,
  the parsed default template of the package manifest (\<open>src/tmpl/default_vsixmanifest.json\<close>,
  a file that is not part of the sources at hand), the root of the merger, and the
  manifest files that the globs found, each with the text \<open>fs.readFile\<close> returns.
\<close>

record environment =
  JSON_parse :: "string \<Rightarrow> jsval option"
  path_isAbsolute :: "string \<Rightarrow> bool"
  path_rebase :: "string \<Rightarrow> string \<Rightarrow> string \<Rightarrow> string"
  template :: jsval
  root :: string
  files :: "(string \<times> string) list"

text \<open>What \<open>console.log\<close> and \<open>console.error\<close> print.\<close>

datatype console_line = Log string | Error failure

text \<open>
  The callback of one \<open>readFile\<close>: the parsed manifest tagged with its origin, or, when
  anything in the \<open>try\<close> block throws, two printed lines and the exception again.
\<close>

definition parse_error_lines :: "string \<Rightarrow> string \<Rightarrow> console_line list" where
  "parse_error_lines file data = [Log (''Error parsing the JSON in '' @ file @ '': ''), Log data]"

definition load_manifest ::
  "(string \<Rightarrow> jsval option) \<Rightarrow> string \<times> string \<Rightarrow> console_line list \<times> (failure + jsval)" where
  "load_manifest parse fd =
     (case fd of (file, data) \<Rightarrow>
        (case parse data of
           None \<Rightarrow> (parse_error_lines file data, Inl SyntaxError)
         | Some result \<Rightarrow>
             (case putMember result (Key ''__origin'') (JStr file) of
                Inl e \<Rightarrow> (parse_error_lines file data, Inl e)
              | Inr tagged \<Rightarrow> ([], Inr tagged))))"

text \<open>\<open>Q.all\<close>: every result when all promises are fulfilled, else the first rejection.\<close>

fun all_results :: "(failure + 'a) list \<Rightarrow> failure + 'a list" where
  "all_results [] = Inr []"
| "all_results (r # rs) = andThen r (\<lambda>x. andThen (all_results rs) (\<lambda>xs. Inr (x # xs)))"

text \<open>The validation and rewriting of one asset of a partial manifest.\<close>

definition resolve_asset :: "environment \<Rightarrow> jsval \<Rightarrow> jsval \<Rightarrow> failure + jsval" where
  "resolve_asset env origin asset =
     andThen (object_keys asset) (\<lambda>keys.
       if length keys \<noteq> 2 \<or> ''type'' \<notin> set keys \<or> ''path'' \<notin> set keys
       then Inl (Thrown (JStr ''Assets must have a type and a path.''))
       else
         andThen (getProp asset ''path'') (\<lambda>p.
           case p of
             JStr s \<Rightarrow>
               if path_isAbsolute env s
               then Inl (Thrown (JStr ''Paths in manifests must be relative.''))
               else
                 (case origin of
                    JStr file \<Rightarrow> putMember asset (Key ''path'') (JStr (path_rebase env (root env) file s))
                  | _ \<Rightarrow> Inl TypeError)
           | _ \<Rightarrow> Inl TypeError))"

fun resolve_each :: "environment \<Rightarrow> jsval \<Rightarrow> jsval list \<Rightarrow> failure + jsval list" where
  "resolve_each env origin [] = Inr []"
| "resolve_each env origin (a # as) =
     andThen (resolve_asset env origin a) (\<lambda>a'.
     andThen (resolve_each env origin as) (\<lambda>as'. Inr (a' # as')))"

definition resolve_assets :: "environment \<Rightarrow> jsval \<Rightarrow> failure + jsval" where
  "resolve_assets env partial =
     andThen (getProp partial ''assets'') (\<lambda>assets.
       if isArray assets then
         andThen (getProp partial ''__origin'') (\<lambda>origin.
         andThen (elements assets) (\<lambda>as.
         andThen (resolve_each env origin as) (\<lambda>as'.
           case assets of
             JArr xs ps \<Rightarrow> putMember partial (Key ''assets'') (JArr as' ps)
           | _ \<Rightarrow> Inr partial)))
       else Inr partial)"

text \<open>One round of \<open>partials.forEach\<close>.\<close>

definition merge_partial :: "environment \<Rightarrow> jsval \<times> jsval \<Rightarrow> jsval \<Rightarrow> failure + (jsval \<times> jsval)" where
  "merge_partial env acc partial =
     andThen (resolve_assets env partial) (\<lambda>resolved.
     andThen (object_keys resolved) (\<lambda>keys.
       forEach (\<lambda>(vso, vsix) key. mergeKey key (member resolved (Key key)) vso vsix) keys acc))"

text \<open>
  The promise chain of \<open>merge\<close> up to its last \<open>catch\<close>: the pair of manifests, or the
  rejection. The template is tagged before \<open>Q.all\<close> is called, in the same callback.
\<close>

definition merge_chain :: "environment \<Rightarrow> failure + (jsval \<times> jsval)" where
  "merge_chain env =
     andThen (putMember (template env) (Key ''__meta_root'') (JStr (root env))) (\<lambda>vsixManifest.
     andThen (all_results (map (\<lambda>fd. snd (load_manifest (JSON_parse env) fd)) (files env)))
       (\<lambda>partials.
          forEach (merge_partial env) partials
            (JObj [(''__meta_root'', JStr (root env))], vsixManifest)))"

text \<open>
  \<open>merge\<close> ends with \<open>.catch(console.error.bind(console))\<close>: a rejection is printed and the
  promise that \<open>merge\<close> returns is fulfilled with what \<open>console.error\<close> returns,
  \<open>undefined\<close>.

  The console shows the lines in the order of the events. The callbacks of the reads run
  one after the other, here in the order of the files (the order in which the reads
  were started; the order in which the file system completes them is not in the hands of
  the program). The first callback that throws rejects the promise of \<open>Q.all\<close>, and the
  handlers of a settled promise run before the next callback of a read does: the
  rejection is printed right after the two lines of that callback, and the lines of the
  files that follow come after it. \<open>until_rejected\<close> splits the lines of the callbacks
  there. A template that cannot be tagged throws before any callback has run.
\<close>

fun until_rejected ::
  "(console_line list \<times> (failure + 'a)) list \<Rightarrow> console_line list \<times> console_line list" where
  "until_rejected [] = ([], [])"
| "until_rejected ((ls, r) # rest) =
     (case r of
        Inl e \<Rightarrow> (ls, concat (map fst rest))
      | Inr x \<Rightarrow> (case until_rejected rest of (before, after) \<Rightarrow> (ls @ before, after)))"

definition printed_lines :: "environment \<Rightarrow> console_line list" where
  "printed_lines env =
     (let loaded = map (load_manifest (JSON_parse env)) (files env) in
      case putMember (template env) (Key ''__meta_root'') (JStr (root env)) of
        Inl e \<Rightarrow> Error e # concat (map fst loaded)
      | Inr vsixManifest \<Rightarrow>
          (case until_rejected loaded of
             (before, after) \<Rightarrow>
               (case merge_chain env of
                  Inl e \<Rightarrow> before @ [Error e] @ after
                | Inr manifests \<Rightarrow> before @ after)))"

datatype promise = Fulfilled jsval | Rejected failure

definition merge :: "environment \<Rightarrow> console_line list \<times> promise" where
  "merge env =
     (printed_lines env,
      case merge_chain env of
        Inl e \<Rightarrow> Fulfilled JUndef
      | Inr (vsoManifest, vsixManifest) \<Rightarrow>
          Fulfilled (JObj [(''vsoManifest'', vsoManifest), (''vsixManifest'', vsixManifest)]))"

section \<open>Writing the manifests\<close>

subsection \<open>\<open>_.get\<close>, \<open>_.set\<close> and \<open>_.remove\<close>\<close>

text \<open>
  Lodash takes a path as a string. When the string itself is a key of the object, that
  key is the whole path; otherwise the string is split into its steps. The model gets
  both: the string, and the steps it splits into (an index step is the same property
  whether it is written \<open>Idx 0\<close> or \<open>Key ''0''\<close>).
\<close>

definition is_nullish :: "jsval \<Rightarrow> bool" where
  "is_nullish v = (v = JUndef \<or> v = JNull)"

fun walk :: "pkey list \<Rightarrow> jsval \<Rightarrow> jsval" where
  "walk [] object = object"
| "walk (k # ks) object = (if is_nullish object then JUndef else walk ks (member object k))"

definition get_lodash :: "jsval \<Rightarrow> string \<Rightarrow> pkey list \<Rightarrow> jsval \<Rightarrow> jsval" where
  "get_lodash object pathKey path defaultValue =
     (let result =
            (if is_nullish object then JUndef
             else if has_key object (Key pathKey) then member object (Key pathKey)
             else if path = [] then JUndef
             else walk path object)
      in if result = JUndef then defaultValue else result)"

text \<open>\<open>isIndex\<close> of the step that follows: a missing object on the way is created as an
  array before an index, as an object before a name.\<close>

fun is_index_key :: "pkey \<Rightarrow> bool" where
  "is_index_key (Idx i) = (i < 9007199254740991)"
| "is_index_key (Key k) = (k \<noteq> [] \<and> list_all is_digit k \<and> digits_value k < 9007199254740991)"

fun set_walk :: "pkey list \<Rightarrow> jsval \<Rightarrow> jsval \<Rightarrow> jsval" where
  "set_walk [] v nested = nested"
| "set_walk [k] v nested = (if isObject nested then put nested k v else nested)"
| "set_walk (k # k' # ks) v nested =
     (if \<not> isObject nested then nested
      else
        (let created =
               (if is_nullish (member nested k)
                then put nested k (if is_index_key k' then JArr [] [] else JObj [])
                else nested)
         in put created k (set_walk (k' # ks) v (member created k))))"

definition set_lodash :: "jsval \<Rightarrow> string \<Rightarrow> pkey list \<Rightarrow> jsval \<Rightarrow> jsval" where
  "set_lodash object pathKey path v =
     (if is_nullish object then object
      else if \<not> is_nullish (member object (Key pathKey)) \<or> has_key object (Key pathKey)
      then set_walk [Key pathKey] v object
      else set_walk path v object)"

subsection \<open>\<open>VsixWriter.prepManifests\<close>\<close>

definition VSO_MANIFEST_FILENAME :: string where
  "VSO_MANIFEST_FILENAME = ''extension.vsomanifest''"

definition manifest_asset :: jsval where
  "manifest_asset =
     JObj [(''$'', JObj [(''Type'', JStr ''Microsoft.VSO.Manifest''),
                         (''Path'', JStr VSO_MANIFEST_FILENAME)])]"

text \<open>
  The predicate given to \<open>_.remove\<close>:
  \<open>_.get(asset, "$.Type", "x").toLowerCase() === "microsoft.vso.manifest"\<close>; only a
  string has the method \<open>toLowerCase\<close>.
\<close>

definition is_vso_manifest :: "jsval \<Rightarrow> failure + bool" where
  "is_vso_manifest asset =
     (case get_lodash asset ''$.Type'' [Key ''$'', Key ''Type''] (JStr ''x'') of
        JStr t \<Rightarrow> Inr (toLowerCase t = ''microsoft.vso.manifest'')
      | _ \<Rightarrow> Inl TypeError)"

text \<open>\<open>_.remove(array, predicate)\<close> on the elements of an array: what stays.\<close>

fun remove_where :: "('a \<Rightarrow> failure + bool) \<Rightarrow> 'a list \<Rightarrow> failure + 'a list" where
  "remove_where p [] = Inr []"
| "remove_where p (x # xs) =
     andThen (p x) (\<lambda>b. andThen (remove_where p xs) (\<lambda>ys. Inr (if b then ys else x # ys)))"

definition AssetListKey :: string where
  "AssetListKey = ''PackageManifest.Assets[0].Asset''"

text \<open>
  \<open>prepManifests\<close> mutates the array that \<open>_.get\<close> found inside the manifest; the model
  writes the new array back where it was found. A value that is truthy and no array has
  no method \<open>push\<close>, and the call of it is a \<open>TypeError\<close>. In the other branch the fresh
  array is stored by \<open>_.set\<close> (at the path with a further \<open>[0]\<close>) before the entry is
  pushed to it.
\<close>

definition prepManifests :: "jsval \<Rightarrow> failure + jsval" where
  "prepManifests vsixManifest =
     (let assets = get_lodash vsixManifest AssetListKey AssetList JUndef in
      if truthy assets then
        (case assets of
           JArr es ps \<Rightarrow>
             andThen (remove_where is_vso_manifest es) (\<lambda>kept.
               if map_of ps ''push'' \<noteq> None then Inl TypeError
               else if has_key vsixManifest (Key AssetListKey)
               then putMember vsixManifest (Key AssetListKey) (JArr (kept @ [manifest_asset]) ps)
               else putIn AssetList (JArr (kept @ [manifest_asset]) ps) vsixManifest)
         | _ \<Rightarrow> Inl TypeError)
      else
        Inr (set_lodash vsixManifest (AssetListKey @ ''[0]'') (AssetList @ [Idx 0])
               (JArr [manifest_asset] [])))"

subsection \<open>\<open>ManifestWriter.removeMetaKeys\<close>\<close>




section \<open>Notions used to state the properties\<close>

text \<open>A value that is neither an array nor an object nor \<open>undefined\<close>.\<close>

definition primitive :: "jsval \<Rightarrow> bool" where
  "primitive v = (\<not> isObject v \<and> v \<noteq> JUndef)"

text \<open>
  Two steps name different properties of every value, and two paths part ways at such
  a pair of steps (neither path runs through the end of the other).
\<close>

definition sep :: "pkey \<Rightarrow> pkey \<Rightarrow> bool" where
  "sep k k' = (key_str k \<noteq> key_str k' \<and> (key_index k = key_index k' \<longrightarrow> key_index k = None))"

fun sep_path :: "pkey list \<Rightarrow> pkey list \<Rightarrow> bool" where
  "sep_path (k # ks) (k' # ks') = (sep k k' \<or> (k = k' \<and> sep_path ks ks'))"
| "sep_path ks ks' = False"

text \<open>
  Where the rule of a key (in lower case) writes: the path in the package manifest, and
  the property of the service manifest.
\<close>

definition vsix_target :: "string \<Rightarrow> pkey list option" where
  "vsix_target k =
     (if k = ''namespace'' then Some (IdentityAttrs @ [Key ''Id''])
      else if k = ''version'' then Some (IdentityAttrs @ [Key ''Version''])
      else if k = ''name'' then Some (Metadata0 @ [Key ''DisplayName'', Idx 0])
      else if k = ''description'' then Some (Metadata0 @ [Key ''Description'', Idx 0, Key ''_''])
      else if k = ''publisher'' then Some (IdentityAttrs @ [Key ''Publisher''])
      else if k = ''releasenotes'' then Some (Metadata0 @ [Key ''ReleaseNotes''])
      else if k = ''tags'' then Some (Metadata0 @ [Key ''Tags''])
      else if k = ''vsoflags'' then Some (Metadata0 @ [Key ''VSOFlags''])
      else if k = ''categories'' then Some (Metadata0 @ [Key ''Categories''])
      else if k = ''assets'' then Some [Key ''PackageManifest'', Key ''Assets'']
      else None)"

definition vso_target :: "string \<Rightarrow> string option" where
  "vso_target k =
     (if k = ''namespace'' then Some ''namespace''
      else if k = ''version'' then Some ''version''
      else if k = ''name'' then Some ''name''
      else if k = ''description'' then Some ''description''
      else if k = ''baseuri'' then Some ''baseUri''
      else if k = ''contributions'' then Some ''contributions''
      else if k = ''contributionpoints'' then Some ''contributionPoints''
      else if k = ''contributiontypes'' then Some ''contributionTypes''
      else None)"

text \<open>
  The calls of \<open>mergeKey\<close> that one round of \<open>partials.forEach\<close> makes for a resolved
  partial manifest, as pairs of key and value, in the order of \<open>Object.keys\<close>.
\<close>

definition merge_calls :: "jsval \<Rightarrow> (string \<times> jsval) list" where
  "merge_calls resolved =
     (case object_keys resolved of
        Inl e \<Rightarrow> []
      | Inr keys \<Rightarrow> map (\<lambda>key. (key, member resolved (Key key))) keys)"

text \<open>One call of \<open>mergeKey\<close> on the pair of accumulators.\<close>

definition call :: "jsval \<times> jsval \<Rightarrow> string \<times> jsval \<Rightarrow> failure + (jsval \<times> jsval)" where
  "call acc d = mergeKey (fst d) (snd d) (fst acc) (snd acc)"

text \<open>
  A call declares the field \<open>f\<close> (a key in lower case) when its key is \<open>f\<close> in some
  letter case; the rule of \<open>assets\<close> acts on an array only.
\<close>

definition declares :: "string \<Rightarrow> string \<times> jsval \<Rightarrow> bool" where
  "declares f d = (toLowerCase (fst d) = f \<and> (f \<noteq> ''assets'' \<or> isArray (snd d)))"

text \<open>
  The shape of the package manifest that the rules rely on: the attributes of
  \<open>Metadata[0].Identity[0]\<close>, the element list \<open>Metadata[0].DisplayName\<close> and the element
  \<open>Metadata[0].Description[0]\<close> are there, as objects or arrays.
\<close>

definition is_object_at :: "pkey list \<Rightarrow> jsval \<Rightarrow> bool" where
  "is_object_at p j = (case getIn p j of Inl e \<Rightarrow> False | Inr x \<Rightarrow> isObject x)"

definition package_shape :: "jsval \<Rightarrow> bool" where
  "package_shape vsix =
     (is_object_at IdentityAttrs vsix
      \<and> is_object_at (Metadata0 @ [Key ''DisplayName'']) vsix
      \<and> is_object_at (Metadata0 @ [Key ''Description'', Idx 0]) vsix)"

text \<open>
  A write at the first path leaves an object at the second path an object: the paths
  part ways, or the write is below the second path.
\<close>

fun safe :: "pkey list \<Rightarrow> pkey list \<Rightarrow> bool" where
  "safe (k # ks) [] = True"
| "safe [] s = False"
| "safe (k # ks) (k' # ks') = (sep k k' \<or> (k = k' \<and> safe ks ks'))"

text \<open>
  What merging a source array into an array index by index leaves at an index. A source
  element that is a string, a number, a boolean or \<open>null\<close> takes the place; where the
  source has \<open>undefined\<close> the destination's element stays; a source element that is an
  object or an array is merged recursively, into the destination's element when that
  is of the same kind and into a fresh object or a copy otherwise. \<open>merge_arrays\<close> is
  the array that results: the destination's elements beyond the length of the source
  stay as they are.
\<close>

definition merged_element :: "jsval \<Rightarrow> jsval \<Rightarrow> jsval" where
  "merged_element value srcValue =
     (case srcValue of
        JArr xs ps \<Rightarrow> baseMerge None (array_start value) srcValue
      | JObj kvs \<Rightarrow> baseMerge None (case value of JObj kvs' \<Rightarrow> value | _ \<Rightarrow> JObj []) srcValue
      | JUndef \<Rightarrow> value
      | _ \<Rightarrow> srcValue)"

fun merge_arrays :: "jsval list \<Rightarrow> jsval list \<Rightarrow> jsval list" where
  "merge_arrays a [] = a"
| "merge_arrays [] (y # b) = merged_element JUndef y # merge_arrays [] b"
| "merge_arrays (x # a) (y # b) = merged_element x y # merge_arrays a b"



text \<open>
  An environment for the examples: the manifest files lie in the root \<open>/r\<close>, so that the
  path of an asset is left as it is, and \<open>JSON.parse\<close> knows the listed documents by
  their text.
\<close>

definition example_env :: "jsval \<Rightarrow> (string \<times> jsval) list \<Rightarrow> (string \<times> string) list \<Rightarrow> environment" where
  "example_env tmpl docs fs =
     \<lparr>JSON_parse = map_of docs,
      path_isAbsolute = (\<lambda>p. take 1 p = ''/''),
      path_rebase = (\<lambda>r origin p. p),
      template = tmpl,
      root = ''/r'',
      files = fs\<rparr>"

definition assets_template :: jsval where
  "assets_template =
     JObj [(''PackageManifest'', JObj [(''Assets'', JArr [JObj [(''Asset'', JArr [] [])]] [])])]"


text \<open>
  A template of the shape that the rules rely on, and two partial manifests as the
  loader returns them: the first declares a name and two tags, the second a name.
\<close>

definition shaped_template :: jsval where
  "shaped_template =
     JObj [(''PackageManifest'',
        JObj [(''Metadata'', JArr [JObj [(''Identity'', JArr [JObj [(''$'', JObj [])]] []),
                                         (''DisplayName'', JArr [] []),
                                         (''Description'', JArr [JObj []] [])]] []),
              (''Assets'', JArr [JObj [(''Asset'', JArr [] [])]] [])])]"

definition first_partial :: jsval where
  "first_partial =
     JObj [(''name'', JStr ''first''), (''tags'', JArr [JStr ''a'', JStr ''b''] []),
           (''__origin'', JStr ''/r/a.json'')]"

definition second_partial :: jsval where
  "second_partial = JObj [(''Name'', JStr ''second''), (''__origin'', JStr ''/r/b.json'')]"

text \<open>
  A package manifest that holds a manifest entry of an earlier run (its type written in
  capitals) and the entry of one file.
\<close>

definition example_package :: jsval where
  "example_package =
     JObj [(''PackageManifest'', JObj [(''Assets'', JArr [JObj [(''Asset'',
       JArr [JObj [(''$'', JObj [(''Type'', JStr ''MICROSOFT.VSO.MANIFEST''),
                                 (''Path'', JStr ''old.vsomanifest'')])],
             JObj [(''$'', JObj [(''Type'', JStr ''png''), (''d:Source'', JStr ''File''),
                                 (''Path'', JStr ''a.png'')])]] [])]] [])])]"

definition small_template :: jsval where
  "small_template = JObj [(''PackageManifest'', JObj [])]"

section \<open>Reading and writing properties\<close>


lemma andThen_simps [simp]:
  "andThen (Inr x) f = f x" "andThen (Inl e) f = Inl e"
  by (simp_all add: andThen_def)

lemma andThen_Inr_iff: "andThen r f = Inr y \<longleftrightarrow> (\<exists>x. r = Inr x \<and> f x = Inr y)"
  by (cases r) auto

lemma show_nat_0 [simp]: "show_nat 0 = ''0''"
  by (simp add: show_nat.simps digit_char_def)

lemma map_of_replace_value:
  "map_of (replace_value kvs k v)
     = (if map_of kvs k = None then map_of kvs else (map_of kvs)(k \<mapsto> v))"
  by (induction kvs) (auto simp: fun_eq_iff)

lemma map_of_insert_index:
  "map_of kvs k = None \<Longrightarrow> map_of (insert_index n k v kvs) = (map_of kvs)(k \<mapsto> v)"
  by (induction kvs) (auto simp: fun_eq_iff split: option.splits if_splits)

lemma replace_value_same: "map_of kvs k = Some v \<Longrightarrow> replace_value kvs k v = kvs"
  by (induction kvs) (auto split: if_splits)

lemma map_of_assign: "map_of (assign kvs k v) = (map_of kvs)(k \<mapsto> v)"
  by (auto simp: assign_def map_of_replace_value map_of_insert_index fun_eq_iff map_add_def
           split: option.splits)

lemmas assign_eval = assign_def as_index_def is_digit_def

lemma lookup_assign: "lookup (assign kvs k v) k' = (if k' = k then v else lookup kvs k')"
  by (simp add: lookup_def map_of_assign)

lemma fst_assign: "fst ` set (assign kvs k v) = insert k (fst ` set kvs)"
  by (simp add: dom_map_of_conv_image_fst [symmetric] map_of_assign)

lemma member_JObj [simp]: "member (JObj kvs) k = lookup kvs (key_str k)"
  by (simp add: member_def)

lemma put_JObj [simp]: "put (JObj kvs) k v = JObj (assign kvs (key_str k) v)"
  by (simp add: put_def)



lemma array_put_nth: "array_put xs i v ! i = v" "i < length (array_put xs i v)"
  by (auto simp: array_put_def nth_append)

lemma array_put_other:
  "i' \<noteq> i \<Longrightarrow>
   (if i' < length (array_put xs i v) then array_put xs i v ! i' else JUndef)
     = (if i' < length xs then xs ! i' else JUndef)"
  by (auto simp: array_put_def nth_append)

lemma putMember_same:
  "isObject j \<Longrightarrow> \<exists>j'. putMember j k v = Inr j' \<and> isObject j' \<and> getMember j' k = Inr v"
  by (cases j) (auto simp: isObject_def lookup_assign array_put_nth split: option.splits)

lemma putMember_other:
  "putMember j k v = Inr j' \<Longrightarrow> sep k k' \<Longrightarrow> getMember j' k' = getMember j k'"
  by (cases j) (auto simp: sep_def lookup_assign array_put_other split: option.splits)

lemma putMember_isObject: "putMember j k v = Inr j' \<Longrightarrow> isObject j' = isObject j"
  by (cases j) (auto simp: isObject_def split: option.splits)

lemma getMember_isObject: "getMember j k = Inr c \<Longrightarrow> isObject c \<Longrightarrow> isObject j"
  by (cases j) (auto simp: isObject_def split: option.splits if_splits)

lemma getIn_isObject: "getIn q j = Inr p \<Longrightarrow> isObject p \<Longrightarrow> isObject j"
proof (induction q arbitrary: j)
  case Nil
  then show ?case by simp
next
  case (Cons k q)
  then obtain c where c: "getMember j k = Inr c" and r: "getIn q c = Inr p"
    by (auto simp: andThen_Inr_iff)
  from Cons.IH [OF r Cons.prems(2)] getMember_isObject [OF c] show ?case by simp
qed

lemma putIn_Cons:
  "ks \<noteq> [] \<Longrightarrow>
   putIn (k # ks) v j
     = andThen (getMember j k) (\<lambda>c. andThen (putIn ks v c) (\<lambda>c'. putMember j k c'))"
  by (cases ks) simp_all

lemma putIn_same:
  "getIn q j = Inr parent \<Longrightarrow> isObject parent \<Longrightarrow>
   \<exists>j'. putIn (q @ [k]) v j = Inr j' \<and> getIn (q @ [k]) j' = Inr v \<and> isObject j'"
proof (induction q arbitrary: j)
  case Nil
  then show ?case using putMember_same [of j k v] by auto
next
  case (Cons k0 q)
  then obtain c where c: "getMember j k0 = Inr c" and r: "getIn q c = Inr parent"
    by (auto simp: andThen_Inr_iff)
  from Cons.IH [OF r Cons.prems(2)] obtain c' where
    p: "putIn (q @ [k]) v c = Inr c'" and g: "getIn (q @ [k]) c' = Inr v" and o: "isObject c'"
    by auto
  have "isObject c" using getIn_isObject [OF r Cons.prems(2)] .
  then have "isObject j" using getMember_isObject [OF c] by simp
  from putMember_same [OF this, of k0 c'] obtain j' where
    "putMember j k0 c' = Inr j'" "isObject j'" "getMember j' k0 = Inr c'" by auto
  then show ?case using c p g by (simp add: putIn_Cons)
qed

lemma putIn_other:
  "putIn p v j = Inr j' \<Longrightarrow> sep_path p r \<Longrightarrow> getIn r j' = getIn r j"
proof (induction p v j arbitrary: j' r rule: putIn.induct)
  case (1 v j)
  then show ?case by simp
next
  case (2 k v j)
  then obtain k' r' where r: "r = k' # r'" by (cases r) auto
  with 2 have "sep k k'" by simp
  from putMember_other [OF _ this, of j v j'] 2 r show ?case by simp
next
  case (3 k k1 ks v j)
  then obtain k' r' where r: "r = k' # r'" by (cases r) auto
  from "3.prems"(1) obtain c c' where c: "getMember j k = Inr c"
    and p: "putIn (k1 # ks) v c = Inr c'" and w: "putMember j k c' = Inr j'"
    by (auto simp: andThen_Inr_iff)
  show ?case
  proof (cases "sep k k'")
    case True
    from putMember_other [OF w True] r show ?thesis by simp
  next
    case False
    with "3.prems"(2) r have kk: "k' = k" and s: "sep_path (k1 # ks) r'" by auto
    have ih: "getIn r' c' = getIn r' c" using "3.IH" [OF p s] .
    show ?thesis
    proof (cases "isObject j")
      case True
      from putMember_same [OF True, of k c'] w have "getMember j' k = Inr c'" by auto
      with c ih r kk show ?thesis by simp
    next
      case False
      then have "j' = j" using w by (cases j) (auto simp: isObject_def)
      then show ?thesis by simp
    qed
  qed
qed



lemma getIn_append: "getIn (p @ q) j = andThen (getIn p j) (getIn q)"
  by (induction p arbitrary: j) (auto simp: andThen_def split: sum.splits)

lemma getIn_parent:
  "getIn (q @ [k]) j = Inr x \<Longrightarrow> isObject x \<Longrightarrow> \<exists>parent. getIn q j = Inr parent \<and> isObject parent"
  by (auto simp: getIn_append andThen_Inr_iff dest: getMember_isObject)

lemma putIn_replace:
  assumes "getIn p j = Inr x" and "isObject x" and "p \<noteq> []"
  shows "\<exists>j'. putIn p v j = Inr j' \<and> getIn p j' = Inr v"
proof -
  from assms(3) obtain q k where p: "p = q @ [k]" by (cases p rule: rev_cases) auto
  from getIn_parent [OF assms(1) [unfolded p] assms(2)] obtain parent where
    "getIn q j = Inr parent" "isObject parent" by auto
  from putIn_same [OF this, of k v] p show ?thesis by auto
qed

lemma sep_path_append: "sep_path p r \<Longrightarrow> sep_path (p @ q) r"
  by (induction p r rule: sep_path.induct) auto


section \<open>Properties of the remote-error translator\<close>

text \<open>
  Claim C9. Given a response object, the translator throws the fixed credential-expiry
  message when \<open>statusCode\<close> is 401; otherwise, when \<open>body\<close> is a string that parses to an
  object whose \<open>message\<close> is the non-empty string \<open>x\<close>, it throws \<open>x\<close>; when \<open>body\<close> is an
  object with no \<open>message\<close> field, it throws that body object; and a string input that
  \<open>JSON.parse\<close> rejects is thrown as it is.
\<close>

theorem err_translation:
  "(map_of kvs ''statusCode'' = Some (JNum 401) \<longrightarrow>
      err parse (JObj kvs) = Thrown (JStr credential_message))
 \<and> (map_of kvs ''statusCode'' \<noteq> Some (JNum 401) \<and> map_of kvs ''body'' = Some (JStr s) \<and> s \<noteq> []
      \<and> parse s = Some (JObj [(''message'', JStr x)]) \<and> x \<noteq> [] \<longrightarrow>
      err parse (JObj kvs) = Thrown (JStr x))
 \<and> (map_of kvs ''statusCode'' \<noteq> Some (JNum 401) \<and> map_of kvs ''body'' = Some (JObj b)
      \<and> map_of b ''message'' = None \<longrightarrow>
      err parse (JObj kvs) = Thrown (JObj b))
 \<and> (parse t = None \<longrightarrow> err parse (JStr t) = Thrown (JStr t))"
  by (auto simp: err_def parse_or_throw_def getProp_def lookup_def split: option.splits)

theorem err_translation_witness:
  "err message_parser (JObj [(''statusCode'', JNum 401)]) = Thrown (JStr credential_message)
 \<and> err message_parser (JObj [(''body'', JStr ''{\"message\":\"X\"}'')]) = Thrown (JStr ''X'')
 \<and> err message_parser (JObj [(''body'', JObj [(''foo'', JNum 1)])]) = Thrown (JObj [(''foo'', JNum 1)])
 \<and> err message_parser (JStr ''not json'') = Thrown (JStr ''not json'')"
proof -
  have a: "err message_parser (JObj [(''statusCode'', JNum 401)]) = Thrown (JStr credential_message)"
    using err_translation [of "[(''statusCode'', JNum 401)]" message_parser] by simp
  have b: "err message_parser (JObj [(''body'', JStr ''{\"message\":\"X\"}'')]) = Thrown (JStr ''X'')"
    using err_translation [of "[(''body'', JStr ''{\"message\":\"X\"}'')]" message_parser
        "''{\"message\":\"X\"}''" "''X''"]
    by (simp add: message_parser_def)
  have c: "err message_parser (JObj [(''body'', JObj [(''foo'', JNum 1)])]) = Thrown (JObj [(''foo'', JNum 1)])"
    using err_translation [of "[(''body'', JObj [(''foo'', JNum 1)])]" message_parser _ _
        "[(''foo'', JNum 1)]"]
    by simp
  have d: "err message_parser (JStr ''not json'') = Thrown (JStr ''not json'')"
    using err_translation [of _ message_parser _ _ _ "''not json''"]
    by (simp add: message_parser_def)
  from a b c d show ?thesis by blast
qed

text \<open>
  Claim C10, as stated: for every input object whose \<open>statusCode\<close> is not 401 and whose
  \<open>body\<close> is absent or otherwise falsy, the translator fails with a type error. It does
  not for the falsy bodies \<open>0\<close>, \<open>false\<close> and the empty string: \<open>message\<close> read from such a
  primitive is \<open>undefined\<close>, and the body itself is thrown.
\<close>

theorem err_falsy_body_counterexample:
  "map_of [(''body'', JNum 0)] ''statusCode'' \<noteq> Some (JNum 401)
 \<and> \<not> truthy (JNum 0)
 \<and> err message_parser (JObj [(''body'', JNum 0)]) = Thrown (JNum 0)
 \<and> err message_parser (JObj [(''body'', JNum 0)]) \<noteq> TypeError"
  by (simp add: err_def parse_or_throw_def getProp_def lookup_def)

text \<open>
  Claim C10, amended: for every input object whose \<open>statusCode\<close> is not 401 and whose
  \<open>body\<close> is absent, \<open>undefined\<close> or \<open>null\<close>, the translator fails with a type error from
  reading \<open>message\<close>, and throws none of its translated values.
\<close>

theorem err_missing_body:
  "map_of kvs ''statusCode'' \<noteq> Some (JNum 401) \<Longrightarrow>
   map_of kvs ''body'' = None \<or> map_of kvs ''body'' = Some JUndef \<or> map_of kvs ''body'' = Some JNull \<Longrightarrow>
   err parse (JObj kvs) = TypeError"
  by (auto simp: err_def parse_or_throw_def getProp_def lookup_def split: option.splits)

theorem err_missing_body_witness:
  "map_of [(''statusCode'', JNum 500)] ''statusCode'' \<noteq> Some (JNum 401)
 \<and> map_of [(''statusCode'', JNum 500)] ''body'' = None
 \<and> err message_parser (JObj [(''statusCode'', JNum 500)]) = TypeError"
  using err_missing_body [of "[(''statusCode'', JNum 500)]" message_parser] by simp

section \<open>Properties of the content-type index\<close>

lemma set_unique: "set (unique xs) = set xs"
  by (induction xs rule: unique.induct) auto

lemma extname_shape: "extname p = [] \<or> hd (extname p) = CHR ''.''"
  by (simp add: extname_def Let_def)

lemma content_type_of_dotted:
  "e = [] \<or> hd e = CHR ''.'' \<Longrightarrow> content_type_of e = ''application/octet-stream''"
  by (cases e) (auto simp: content_type_of_def CONTENT_TYPE_MAP_def)

lemma trimLeft_extname: "trimLeft (extname p) = extname p"
  using extname_shape [of p]
  by (cases "extname p") (auto simp: trimLeft_def is_whitespace_def)

text \<open>
  Claim C5 says that the index maps each distinct extension, with its leading dot
  stripped, through the static table, \<open>json\<close> to \<open>application/json\<close>. The code calls
  \<open>_.trimLeft\<close> without the character to trim, so the dot stays, no extension is found in
  the table, and every entry is \<open>application/octet-stream\<close>: for the two manifest
  entries and a \<open>json\<close> asset the index is as follows.
\<close>

theorem genContentTypesXml_keeps_dot:
  "genContentTypesXml [''extension.vsomanifest'', ''extension.vsixmanifest'', ''data/a.json'']
     = [(''.vsomanifest'', ''application/octet-stream''),
        (''.vsixmanifest'', ''application/octet-stream''),
        (''.json'', ''application/octet-stream'')]"
  by (simp add: genContentTypesXml_def extname_def basename_def trimLeft_def is_whitespace_def
      content_type_of_def CONTENT_TYPE_MAP_def Let_def)

lemma genContentTypesXml_all_octet_stream:
  "(e, t) \<in> set (genContentTypesXml fileNames) \<Longrightarrow> t = ''application/octet-stream''"
  by (auto simp: genContentTypesXml_def set_unique trimLeft_extname
      intro!: content_type_of_dotted extname_shape)

section \<open>Properties of \<open>_.merge\<close> and of the contribution fields\<close>

lemma mergeValue_JObj:
  "\<exists>kvs'. mergeValue c b (JObj kvs) (Key k) v = JObj kvs' \<and> (\<forall>x. x \<noteq> k \<longrightarrow> map_of kvs' x = map_of kvs x)"
  by (auto simp: mergeValue.simps Let_def assignValue_def map_of_assign split: jsval.splits)

lemma mergeProps_other:
  "x \<notin> fst ` set src \<Longrightarrow>
   \<exists>kvs'. mergeProps c (JObj kvs) src = JObj kvs' \<and> map_of kvs' x = map_of kvs x"
proof (induction src arbitrary: kvs)
  case Nil
  then show ?case by simp
next
  case (Cons p src)
  obtain k v where p: "p = (k, v)" by (cases p)
  from Cons.prems p have kx: "x \<noteq> k" and nx: "x \<notin> fst ` set src" by auto
  obtain kvs1 where s1: "mergeValue c False (JObj kvs) (Key k) v = JObj kvs1"
    and f1: "map_of kvs1 x = map_of kvs x"
    using mergeValue_JObj [of c False kvs k v] kx by auto
  from Cons.IH [OF nx, of kvs1] s1 f1 p show ?case by auto
qed

lemma mergeValue_concat:
  "map_of kvs x = Some (JArr a ps) \<Longrightarrow>
   mergeValue (Some concat_customizer) s (JObj kvs) (Key x) (JArr b qs)
     = JObj (assign kvs x (JArr (a @ b) []))"
  by (simp add: mergeValue.simps isObject_def custom_def concat_customizer_def lookup_def)

lemma mergeProps_concat:
  "distinct (map fst src) \<Longrightarrow> map_of src x = Some (JArr b qs) \<Longrightarrow>
   map_of kvs x = Some (JArr a ps) \<Longrightarrow>
   \<exists>kvs'. mergeProps (Some concat_customizer) (JObj kvs) src = JObj kvs'
      \<and> map_of kvs' x = Some (JArr (a @ b) [])"
proof (induction src arbitrary: kvs)
  case Nil
  then show ?case by simp
next
  case (Cons p src)
  obtain k v where p: "p = (k, v)" by (cases p)
  show ?case
  proof (cases "k = x")
    case True
    with Cons.prems p have v: "v = JArr b qs" and nx: "x \<notin> fst ` set src" by auto
    from mergeProps_other [OF nx, of "Some concat_customizer" "assign kvs x (JArr (a @ b) [])"]
    show ?thesis
      using p True v mergeValue_concat [OF Cons.prems(3)] by (auto simp: map_of_assign)
  next
    case False
    obtain kvs1 where s1: "mergeValue (Some concat_customizer) False (JObj kvs) (Key k) v = JObj kvs1"
      and f1: "map_of kvs1 x = map_of kvs x"
      using mergeValue_JObj [of "Some concat_customizer" False kvs k v] False by auto
    from Cons.prems p False have d: "distinct (map fst src)" and m: "map_of src x = Some (JArr b qs)"
      by auto
    from Cons.IH [OF d m, of kvs1] f1 Cons.prems(3) s1 p show ?thesis by auto
  qed
qed


lemma mergeValue_element:
  "mergeValue None True (JArr (pre @ rest) ps) (Idx (length pre)) y
     = JArr (pre @ merged_element (case rest of [] \<Rightarrow> JUndef | x # r \<Rightarrow> x) y # tl rest) ps"
proof (cases "isObject y")
  case True
  then show ?thesis
    by (cases rest; cases y)
      (simp_all add: mergeValue.simps isObject_def custom_def put_def member_def array_put_def
         merged_element_def nth_append)
next
  case False
  then show ?thesis
    by (cases rest; cases y)
      (simp_all add: mergeValue.simps isObject_def custom_def put_def member_def array_put_def
         merged_element_def nth_append assignValue_def)
qed

lemma mergeElems_arrays:
  "mergeElems None (JArr (pre @ rest) ps) (length pre) b = JArr (pre @ merge_arrays rest b) ps"
proof (induction b arbitrary: pre rest)
  case Nil
  then show ?case by simp
next
  case (Cons y b)
  let ?m = "merged_element (case rest of [] \<Rightarrow> JUndef | x # r \<Rightarrow> x) y"
  have "mergeElems None (JArr (pre @ rest) ps) (length pre) (y # b)
      = mergeElems None (JArr ((pre @ [?m]) @ tl rest) ps) (length (pre @ [?m])) b"
    by (simp add: mergeValue_element)
  also have "\<dots> = JArr ((pre @ [?m]) @ merge_arrays (tl rest) b) ps"
    by (rule Cons.IH)
  also have "(pre @ [?m]) @ merge_arrays (tl rest) b = pre @ merge_arrays rest (y # b)"
    by (cases rest) simp_all
  finally show ?case .
qed

lemma length_merge_arrays: "length (merge_arrays a b) = max (length a) (length b)"
  by (induction a b rule: merge_arrays.induct) simp_all

lemma merge_arrays_nth:
  "i < length b \<Longrightarrow>
   merge_arrays a b ! i = merged_element (if i < length a then a ! i else JUndef) (b ! i)"
proof (induction a b arbitrary: i rule: merge_arrays.induct)
  case (1 a)
  then show ?case by simp
next
  case (2 y b)
  then show ?case by (cases i) simp_all
next
  case (3 x a y b)
  then show ?case by (cases i) simp_all
qed

lemma merge_arrays_tail:
  "length b \<le> i \<Longrightarrow> i < length a \<Longrightarrow> merge_arrays a b ! i = a ! i"
proof (induction a b arbitrary: i rule: merge_arrays.induct)
  case (1 a)
  then show ?case by simp
next
  case (2 y b)
  then show ?case by simp
next
  case (3 x a y b)
  then show ?case by (cases i) simp_all
qed

lemma merged_element_primitive: "primitive y \<Longrightarrow> merged_element x y = y"
  by (cases y) (simp_all add: merged_element_def primitive_def isObject_def)

lemma mergeValue_local:
  "map_of kvs x = map_of kvs2 x \<Longrightarrow>
   mergeValue c s (JObj kvs) (Key x) v = JObj k1 \<Longrightarrow>
   mergeValue c s (JObj kvs2) (Key x) v = JObj k2 \<Longrightarrow> map_of k1 x = map_of k2 x"
  by (auto simp: mergeValue.simps Let_def assignValue_def map_of_assign lookup_def
      split: if_splits jsval.splits)

lemma mergeProps_at:
  "distinct (map fst src) \<Longrightarrow> map_of src x = Some v \<Longrightarrow>
   mergeValue c False (JObj kvs) (Key x) v = JObj k1 \<Longrightarrow>
   \<exists>kvs'. mergeProps c (JObj kvs) src = JObj kvs' \<and> map_of kvs' x = map_of k1 x"
proof (induction src arbitrary: kvs k1)
  case Nil
  then show ?case by simp
next
  case (Cons p src)
  obtain k w where p: "p = (k, w)" by (cases p)
  show ?case
  proof (cases "k = x")
    case True
    with Cons.prems p have v: "w = v" and nx: "x \<notin> fst ` set src" by auto
    from mergeProps_other [OF nx, of c k1]
    show ?thesis using p True v Cons.prems(3) by auto
  next
    case False
    obtain kvs1 where s1: "mergeValue c False (JObj kvs) (Key k) w = JObj kvs1"
      and f1: "map_of kvs1 x = map_of kvs x"
      using mergeValue_JObj [of c False kvs k w] False by auto
    obtain k2 where s2: "mergeValue c False (JObj kvs1) (Key x) v = JObj k2"
      using mergeValue_JObj [of c False kvs1 x v] by auto
    from Cons.prems p False have d: "distinct (map fst src)" and m: "map_of src x = Some v"
      by auto
    from Cons.IH [OF d m s2] obtain kvs' where
      r: "mergeProps c (JObj kvs1) src = JObj kvs'" and e: "map_of kvs' x = map_of k2 x" by auto
    have "map_of k2 x = map_of k1 x"
      using mergeValue_local [OF f1 s2 Cons.prems(3)] .
    with r e s1 p show ?thesis by auto
  qed
qed

lemma merge_field_at:
  assumes "distinct (map fst src)" and "map_of src x = Some v"
    and "map_of vso f = Some (JObj acc)"
    and "mergeValue c False (JObj acc) (Key x) v = JObj k1"
  shows "\<exists>vso'. merge_field c f (JObj src) (JObj vso) = Inr vso'
           \<and> getIn [Key f, Key x] vso' = Inr (lookup k1 x)"
proof -
  from mergeProps_at [OF assms(1,2,4)] obtain kvs' where
    r: "mergeProps c (JObj acc) src = JObj kvs'" and e: "map_of kvs' x = map_of k1 x" by auto
  have "merge_field c f (JObj src) (JObj vso) = Inr (JObj (assign vso f (JObj kvs')))"
    using assms(3) r
    by (simp add: merge_field_def lookup_def merge_lodash_def baseMerge.simps isObject_def)
  then show ?thesis using e by (simp add: lookup_def map_of_assign)
qed

lemmas merge_eval =
  merge_def merge_chain_def printed_lines_def load_manifest_def example_env_def small_template_def
  assign_def as_index_def is_digit_def
  merge_partial_def resolve_assets_def getProp_def lookup_def isArray_def
  mergeKey_def toLowerCase_def lower_char_def merge_field_def set_both_def set_vsix_def
  merge_lodash_def baseMerge.simps mergeValue.simps isObject_def custom_def
  concat_customizer_def assignValue_def array_put_def put_def member_def array_start_def

text \<open>
  Claim C1, as stated: merging through \<open>contributionPoints\<close> overwrites arrays. It does so
  in the example of the claim, but not in general: \<open>_.merge\<close> merges arrays index by
  index, and an accumulator array that is longer than the incoming one keeps its tail.
  Merging \<open>{contributionPoints:{x:[1,2]}}\<close> and then \<open>{contributionPoints:{x:[3]}}\<close> leaves
  \<open>contributionPoints.x == [3,2]\<close>.
\<close>

theorem contributionPoints_array_counterexample:
  "merge (example_env small_template
            [(''a'', JObj [(''contributionPoints'', JObj [(''x'', JArr [JNum 1, JNum 2] [])])]),
             (''b'', JObj [(''contributionPoints'', JObj [(''x'', JArr [JNum 3] [])])])]
            [(''/r/a.json'', ''a''), (''/r/b.json'', ''b'')])
     = ([], Fulfilled (JObj
          [(''vsoManifest'',
              JObj [(''__meta_root'', JStr ''/r''),
                    (''contributionPoints'', JObj [(''x'', JArr [JNum 3, JNum 2] [])])]),
           (''vsixManifest'',
              JObj [(''PackageManifest'', JObj []), (''__meta_root'', JStr ''/r'')])]))"
  by (simp add: merge_eval)

text \<open>
  Claim C1, amended. When the accumulator and the incoming value of \<open>contributions\<close> both
  hold an array under a key \<open>x\<close>, the merged \<open>contributions.x\<close> is the concatenation,
  accumulator entries first. Through \<open>contributionPoints\<close> and \<open>contributionTypes\<close> the
  plain merge of lodash is used instead, which merges two objects under a key
  recursively and two arrays \<open>a\<close> (of the accumulator) and \<open>b\<close> (incoming) under a key index
  by index: the result has the length of the longer one; at an index of \<open>b\<close>, an
  incoming string, number, boolean or \<open>null\<close> takes the place of the accumulator's
  element, an incoming object is merged recursively into the accumulator's element
  (into an empty object when that is no object), and an incoming array is merged
  recursively into the accumulator's element (into a copy or an empty array when that
  is no array); the accumulator's elements beyond the length of \<open>b\<close> are kept. So
  \<open>{contributions:{x:[1]}}\<close> then \<open>{contributions:{x:[2]}}\<close> yields \<open>[1,2]\<close> and the same through
  \<open>contributionPoints\<close> yields \<open>[2]\<close>; but \<open>[1,2]\<close> then \<open>[3]\<close> yields \<open>[3,2]\<close>, and
  \<open>[{u:1}]\<close> then \<open>[{w:3}]\<close> yields \<open>[{u:1,w:3}]\<close>.
\<close>

theorem merge_contributions:
  assumes "distinct (map fst src)"
    and "map_of acc x = Some (JArr a ps)"
    and "map_of src x = Some (JArr b qs)"
  shows
    "(toLowerCase key = ''contributions'' \<and> map_of vso ''contributions'' = Some (JObj acc) \<longrightarrow>
        (\<exists>vso'. mergeKey key (JObj src) (JObj vso) vsix = Inr (vso', vsix)
           \<and> getIn [Key ''contributions'', Key x] vso' = Inr (JArr (a @ b) [])))
   \<and> ((toLowerCase key = ''contributionpoints'' \<and> f = ''contributionPoints''
         \<or> toLowerCase key = ''contributiontypes'' \<and> f = ''contributionTypes'')
        \<and> map_of vso f = Some (JObj acc) \<longrightarrow>
        (\<exists>vso' r. mergeKey key (JObj src) (JObj vso) vsix = Inr (vso', vsix)
           \<and> getIn [Key f, Key x] vso' = Inr (JArr r ps)
           \<and> length r = max (length a) (length b)
           \<and> (\<forall>i<length b. primitive (b ! i) \<longrightarrow> r ! i = b ! i)
           \<and> (\<forall>i<length b. \<forall>ob. b ! i = JObj ob \<longrightarrow>
                 r ! i = merge_lodash None
                           (case member (JArr a ps) (Idx i) of JObj oa \<Rightarrow> JObj oa | _ \<Rightarrow> JObj [])
                           (JObj ob))
           \<and> (\<forall>i<length b. \<forall>ys zs. b ! i = JArr ys zs \<longrightarrow>
                 r ! i = merge_lodash None (array_start (member (JArr a ps) (Idx i))) (JArr ys zs))
           \<and> (\<forall>i. length b \<le> i \<and> i < length a \<longrightarrow> r ! i = a ! i)))
   \<and> ((toLowerCase key = ''contributionpoints'' \<and> f = ''contributionPoints''
         \<or> toLowerCase key = ''contributiontypes'' \<and> f = ''contributionTypes'')
        \<and> map_of vso f = Some (JObj acc)
        \<and> map_of acc y = Some (JObj oa) \<and> map_of src y = Some (JObj ob) \<longrightarrow>
        (\<exists>vso'. mergeKey key (JObj src) (JObj vso) vsix = Inr (vso', vsix)
           \<and> getIn [Key f, Key y] vso' = Inr (merge_lodash None (JObj oa) (JObj ob))))"
proof -
  let ?r = "merge_arrays a b"
  have concat: "mergeValue (Some concat_customizer) False (JObj acc) (Key x) (JArr b qs)
      = JObj (assign acc x (JArr (a @ b) []))"
    using mergeValue_concat [OF assms(2)] .
  have plain: "mergeValue None False (JObj acc) (Key x) (JArr b qs) = JObj (assign acc x (JArr ?r ps))"
    using assms(2) mergeElems_arrays [of "[]" a ps b]
    by (simp add: mergeValue.simps isObject_def custom_def lookup_def baseMerge.simps array_start_def)
  have prim: "\<forall>i<length b. primitive (b ! i) \<longrightarrow> ?r ! i = b ! i"
    by (simp add: merge_arrays_nth merged_element_primitive)
  have obj: "\<forall>i<length b. \<forall>ob. b ! i = JObj ob \<longrightarrow>
      ?r ! i = merge_lodash None
                 (case member (JArr a ps) (Idx i) of JObj oa \<Rightarrow> JObj oa | _ \<Rightarrow> JObj []) (JObj ob)"
    by (auto simp: merge_arrays_nth merged_element_def merge_lodash_def member_def
        split: jsval.splits)
  have arr: "\<forall>i<length b. \<forall>ys zs. b ! i = JArr ys zs \<longrightarrow>
      ?r ! i = merge_lodash None (array_start (member (JArr a ps) (Idx i))) (JArr ys zs)"
    by (auto simp: merge_arrays_nth merged_element_def merge_lodash_def member_def array_start_def
        split: jsval.splits)
  have tail: "\<forall>i. length b \<le> i \<and> i < length a \<longrightarrow> ?r ! i = a ! i"
    by (simp add: merge_arrays_tail)
  have deep: "\<exists>vso'. merge_field None f (JObj src) (JObj vso) = Inr vso'
      \<and> getIn [Key f, Key y] vso' = Inr (merge_lodash None (JObj oa) (JObj ob))"
    if v: "map_of vso f = Some (JObj acc)" and a: "map_of acc y = Some (JObj oa)"
      and b: "map_of src y = Some (JObj ob)"
  proof -
    have "mergeValue None False (JObj acc) (Key y) (JObj ob)
        = JObj (assign acc y (baseMerge None (JObj oa) (JObj ob)))"
      using a by (simp add: mergeValue.simps isObject_def custom_def lookup_def)
    from merge_field_at [OF assms(1) b v this] show ?thesis
      by (simp add: lookup_assign merge_lodash_def)
  qed
  have index: "\<exists>vso'. merge_field None f (JObj src) (JObj vso) = Inr vso'
      \<and> getIn [Key f, Key x] vso' = Inr (JArr ?r ps)"
    if v: "map_of vso f = Some (JObj acc)"
    using merge_field_at [OF assms(1,3) v plain] by (simp add: lookup_assign)
  have 1: "toLowerCase key = ''contributions'' \<and> map_of vso ''contributions'' = Some (JObj acc) \<longrightarrow>
        (\<exists>vso'. mergeKey key (JObj src) (JObj vso) vsix = Inr (vso', vsix)
           \<and> getIn [Key ''contributions'', Key x] vso' = Inr (JArr (a @ b) []))"
    using merge_field_at [OF assms(1,3) _ concat, of vso "''contributions''"]
    by (auto simp: mergeKey_def lookup_assign)
  have 2: "(toLowerCase key = ''contributionpoints'' \<and> f = ''contributionPoints''
         \<or> toLowerCase key = ''contributiontypes'' \<and> f = ''contributionTypes'')
        \<and> map_of vso f = Some (JObj acc) \<longrightarrow>
        (\<exists>vso'. mergeKey key (JObj src) (JObj vso) vsix = Inr (vso', vsix)
           \<and> getIn [Key f, Key x] vso' = Inr (JArr ?r ps))"
    using index by (auto simp: mergeKey_def)
  have 3: "(toLowerCase key = ''contributionpoints'' \<and> f = ''contributionPoints''
         \<or> toLowerCase key = ''contributiontypes'' \<and> f = ''contributionTypes'')
        \<and> map_of vso f = Some (JObj acc)
        \<and> map_of acc y = Some (JObj oa) \<and> map_of src y = Some (JObj ob) \<longrightarrow>
        (\<exists>vso'. mergeKey key (JObj src) (JObj vso) vsix = Inr (vso', vsix)
           \<and> getIn [Key f, Key y] vso' = Inr (merge_lodash None (JObj oa) (JObj ob)))"
    using deep by (auto simp: mergeKey_def)
  have len: "length ?r = max (length a) (length b)" by (rule length_merge_arrays)
  from 2 len prim obj arr tail
  have two: "(toLowerCase key = ''contributionpoints'' \<and> f = ''contributionPoints''
         \<or> toLowerCase key = ''contributiontypes'' \<and> f = ''contributionTypes'')
        \<and> map_of vso f = Some (JObj acc) \<longrightarrow>
        (\<exists>vso' r. mergeKey key (JObj src) (JObj vso) vsix = Inr (vso', vsix)
           \<and> getIn [Key f, Key x] vso' = Inr (JArr r ps)
           \<and> length r = max (length a) (length b)
           \<and> (\<forall>i<length b. primitive (b ! i) \<longrightarrow> r ! i = b ! i)
           \<and> (\<forall>i<length b. \<forall>ob. b ! i = JObj ob \<longrightarrow>
                 r ! i = merge_lodash None
                           (case member (JArr a ps) (Idx i) of JObj oa \<Rightarrow> JObj oa | _ \<Rightarrow> JObj [])
                           (JObj ob))
           \<and> (\<forall>i<length b. \<forall>ys zs. b ! i = JArr ys zs \<longrightarrow>
                 r ! i = merge_lodash None (array_start (member (JArr a ps) (Idx i))) (JArr ys zs))
           \<and> (\<forall>i. length b \<le> i \<and> i < length a \<longrightarrow> r ! i = a ! i))"
    by blast
  from 1 two 3 show ?thesis by blast
qed

theorem merge_contributions_witness:
  "(\<exists>vso'. mergeKey ''contributions'' (JObj [(''x'', JArr [JNum 2] [])])
               (JObj [(''contributions'', JObj [(''x'', JArr [JNum 1] [])])]) JNull = Inr (vso', JNull)
        \<and> getIn [Key ''contributions'', Key ''x''] vso' = Inr (JArr [JNum 1, JNum 2] []))
 \<and> (\<exists>vso' r. mergeKey ''contributionPoints'' (JObj [(''x'', JArr [JNum 3] [])])
               (JObj [(''contributionPoints'', JObj [(''x'', JArr [JNum 1, JNum 2] [])])]) JNull
                 = Inr (vso', JNull)
        \<and> getIn [Key ''contributionPoints'', Key ''x''] vso' = Inr (JArr r [])
        \<and> length r = 2 \<and> r ! 0 = JNum 3 \<and> r ! 1 = JNum 2)
 \<and> (\<exists>vso' r. mergeKey ''contributionTypes'' (JObj [(''x'', JArr [JObj [(''w'', JNum 3)]] [])])
               (JObj [(''contributionTypes'', JObj [(''x'', JArr [JObj [(''u'', JNum 1)]] [])])]) JNull
                 = Inr (vso', JNull)
        \<and> getIn [Key ''contributionTypes'', Key ''x''] vso' = Inr (JArr r [])
        \<and> length r = 1 \<and> r ! 0 = JObj [(''u'', JNum 1), (''w'', JNum 3)])
 \<and> (\<exists>vso'. mergeKey ''contributionPoints''
               (JObj [(''x'', JArr [] []), (''y'', JObj [(''w'', JNum 3)])])
               (JObj [(''contributionPoints'',
                        JObj [(''x'', JArr [] []), (''y'', JObj [(''u'', JNum 1)])])]) JNull
                 = Inr (vso', JNull)
        \<and> getIn [Key ''contributionPoints'', Key ''y''] vso'
             = Inr (JObj [(''u'', JNum 1), (''w'', JNum 3)]))
 \<and> merge (example_env small_template
            [(''a'', JObj [(''contributions'', JObj [(''x'', JArr [JNum 1] [])])]),
             (''b'', JObj [(''contributions'', JObj [(''x'', JArr [JNum 2] [])])])]
            [(''/r/a.json'', ''a''), (''/r/b.json'', ''b'')])
     = ([], Fulfilled (JObj
          [(''vsoManifest'',
              JObj [(''__meta_root'', JStr ''/r''),
                    (''contributions'', JObj [(''x'', JArr [JNum 1, JNum 2] [])])]),
           (''vsixManifest'',
              JObj [(''PackageManifest'', JObj []), (''__meta_root'', JStr ''/r'')])]))
 \<and> merge (example_env small_template
            [(''a'', JObj [(''contributionPoints'', JObj [(''x'', JArr [JNum 1] [])])]),
             (''b'', JObj [(''contributionPoints'', JObj [(''x'', JArr [JNum 2] [])])])]
            [(''/r/a.json'', ''a''), (''/r/b.json'', ''b'')])
     = ([], Fulfilled (JObj
          [(''vsoManifest'',
              JObj [(''__meta_root'', JStr ''/r''),
                    (''contributionPoints'', JObj [(''x'', JArr [JNum 2] [])])]),
           (''vsixManifest'',
              JObj [(''PackageManifest'', JObj []), (''__meta_root'', JStr ''/r'')])]))
 \<and> merge (example_env small_template
            [(''a'', JObj [(''contributionPoints'', JObj [(''x'', JArr [JObj [(''u'', JNum 1)]] [])])]),
             (''b'', JObj [(''contributionPoints'', JObj [(''x'', JArr [JObj [(''w'', JNum 3)]] [])])])]
            [(''/r/a.json'', ''a''), (''/r/b.json'', ''b'')])
     = ([], Fulfilled (JObj
          [(''vsoManifest'',
              JObj [(''__meta_root'', JStr ''/r''),
                    (''contributionPoints'',
                       JObj [(''x'', JArr [JObj [(''u'', JNum 1), (''w'', JNum 3)]] [])])]),
           (''vsixManifest'',
              JObj [(''PackageManifest'', JObj []), (''__meta_root'', JStr ''/r'')])]))"
proof -
  have l: "toLowerCase ''contributions'' = ''contributions''"
    "toLowerCase ''contributionPoints'' = ''contributionpoints''"
    "toLowerCase ''contributionTypes'' = ''contributiontypes''"
    by (simp_all add: toLowerCase_def lower_char_def)
  have p: "primitive (JNum 3)" by (simp add: primitive_def isObject_def)
  have o: "merge_lodash None (JObj [(''u'', JNum 1)]) (JObj [(''w'', JNum 3)])
      = JObj [(''u'', JNum 1), (''w'', JNum 3)]"
    by (simp add: merge_lodash_def baseMerge.simps mergeValue.simps isObject_def custom_def
        assignValue_def assign_eval lookup_def)
  have a: "\<exists>vso'. mergeKey ''contributions'' (JObj [(''x'', JArr [JNum 2] [])])
               (JObj [(''contributions'', JObj [(''x'', JArr [JNum 1] [])])]) JNull = Inr (vso', JNull)
        \<and> getIn [Key ''contributions'', Key ''x''] vso' = Inr (JArr [JNum 1, JNum 2] [])"
    using merge_contributions [where src = "[(''x'', JArr [JNum 2] [])]"
        and acc = "[(''x'', JArr [JNum 1] [])]" and x = "''x''" and a = "[JNum 1]" and ps = "[]"
        and b = "[JNum 2]" and qs = "[]" and key = "''contributions''"
        and vso = "[(''contributions'', JObj [(''x'', JArr [JNum 1] [])])]" and vsix = JNull] l
    by simp
  let ?src = "[(''x'', JArr [JNum 3] [])]"
  let ?vso = "[(''contributionPoints'', JObj [(''x'', JArr [JNum 1, JNum 2] [])])]"
  from merge_contributions [where src = ?src and acc = "[(''x'', JArr [JNum 1, JNum 2] [])]"
      and x = "''x''" and a = "[JNum 1, JNum 2]" and ps = "[]" and b = "[JNum 3]" and qs = "[]"
      and key = "''contributionPoints''" and vso = ?vso and vsix = JNull
      and f = "''contributionPoints''"]
  have "\<exists>vso' r. mergeKey ''contributionPoints'' (JObj ?src) (JObj ?vso) JNull = Inr (vso', JNull)
    \<and> getIn [Key ''contributionPoints'', Key ''x''] vso' = Inr (JArr r [])
    \<and> length r = max (length [JNum 1, JNum 2]) (length [JNum 3])
    \<and> (\<forall>i<length [JNum 3]. primitive ([JNum 3] ! i) \<longrightarrow> r ! i = [JNum 3] ! i)
    \<and> (\<forall>i. length [JNum 3] \<le> i \<and> i < length [JNum 1, JNum 2]
           \<longrightarrow> r ! i = [JNum 1, JNum 2] ! i)"
    using l by (fastforce simp del: length_Cons nth_Cons_0 list.size)
  then obtain vso' r where
    m: "mergeKey ''contributionPoints'' (JObj ?src) (JObj ?vso) JNull = Inr (vso', JNull)"
    and g: "getIn [Key ''contributionPoints'', Key ''x''] vso' = Inr (JArr r [])"
    and n: "length r = max (length [JNum 1, JNum 2]) (length [JNum 3])"
    and e: "\<forall>i<length [JNum 3]. primitive ([JNum 3] ! i) \<longrightarrow> r ! i = [JNum 3] ! i"
    and t: "\<forall>i. length [JNum 3] \<le> i \<and> i < length [JNum 1, JNum 2]
              \<longrightarrow> r ! i = [JNum 1, JNum 2] ! i"
    by blast
  from e p have "r ! 0 = JNum 3" by simp
  moreover from t have "r ! 1 = JNum 2" by simp
  moreover from n have "length r = 2" by simp
  ultimately have b: "\<exists>vso' r. mergeKey ''contributionPoints'' (JObj ?src) (JObj ?vso) JNull
        = Inr (vso', JNull)
      \<and> getIn [Key ''contributionPoints'', Key ''x''] vso' = Inr (JArr r [])
      \<and> length r = 2 \<and> r ! 0 = JNum 3 \<and> r ! 1 = JNum 2"
    using m g by blast
  let ?src2 = "[(''x'', JArr [JObj [(''w'', JNum 3)]] [])]"
  let ?vso2 = "[(''contributionTypes'', JObj [(''x'', JArr [JObj [(''u'', JNum 1)]] [])])]"
  from merge_contributions [where src = ?src2 and acc = "[(''x'', JArr [JObj [(''u'', JNum 1)]] [])]"
      and x = "''x''" and a = "[JObj [(''u'', JNum 1)]]" and ps = "[]"
      and b = "[JObj [(''w'', JNum 3)]]" and qs = "[]"
      and key = "''contributionTypes''" and vso = ?vso2 and vsix = JNull
      and f = "''contributionTypes''"]
  have "\<exists>vso' r. mergeKey ''contributionTypes'' (JObj ?src2) (JObj ?vso2) JNull = Inr (vso', JNull)
    \<and> getIn [Key ''contributionTypes'', Key ''x''] vso' = Inr (JArr r [])
    \<and> length r = max (length [JObj [(''u'', JNum 1)]]) (length [JObj [(''w'', JNum 3)]])
    \<and> (\<forall>i<length [JObj [(''w'', JNum 3)]]. \<forall>ob. [JObj [(''w'', JNum 3)]] ! i = JObj ob \<longrightarrow>
          r ! i = merge_lodash None
                    (case member (JArr [JObj [(''u'', JNum 1)]] []) (Idx i) of
                       JObj oa \<Rightarrow> JObj oa | _ \<Rightarrow> JObj [])
                    (JObj ob))"
    using l by (fastforce simp del: length_Cons nth_Cons_0 list.size)
  then obtain vso2 r2 where
    m2: "mergeKey ''contributionTypes'' (JObj ?src2) (JObj ?vso2) JNull = Inr (vso2, JNull)"
    and g2: "getIn [Key ''contributionTypes'', Key ''x''] vso2 = Inr (JArr r2 [])"
    and n2: "length r2 = max (length [JObj [(''u'', JNum 1)]]) (length [JObj [(''w'', JNum 3)]])"
    and e2: "\<forall>i<length [JObj [(''w'', JNum 3)]]. \<forall>ob. [JObj [(''w'', JNum 3)]] ! i = JObj ob \<longrightarrow>
          r2 ! i = merge_lodash None
                    (case member (JArr [JObj [(''u'', JNum 1)]] []) (Idx i) of
                       JObj oa \<Rightarrow> JObj oa | _ \<Rightarrow> JObj [])
                    (JObj ob)"
    by blast
  from e2 have "r2 ! 0 = merge_lodash None (JObj [(''u'', JNum 1)]) (JObj [(''w'', JNum 3)])"
    by (simp add: member_def)
  with o have "r2 ! 0 = JObj [(''u'', JNum 1), (''w'', JNum 3)]" by simp
  moreover from n2 have "length r2 = 1" by simp
  ultimately have c: "\<exists>vso' r. mergeKey ''contributionTypes'' (JObj ?src2) (JObj ?vso2) JNull
        = Inr (vso', JNull)
      \<and> getIn [Key ''contributionTypes'', Key ''x''] vso' = Inr (JArr r [])
      \<and> length r = 1 \<and> r ! 0 = JObj [(''u'', JNum 1), (''w'', JNum 3)]"
    using m2 g2 by blast
  have d: "\<exists>vso'. mergeKey ''contributionPoints''
               (JObj [(''x'', JArr [] []), (''y'', JObj [(''w'', JNum 3)])])
               (JObj [(''contributionPoints'',
                        JObj [(''x'', JArr [] []), (''y'', JObj [(''u'', JNum 1)])])]) JNull
                 = Inr (vso', JNull)
        \<and> getIn [Key ''contributionPoints'', Key ''y''] vso'
             = Inr (JObj [(''u'', JNum 1), (''w'', JNum 3)])"
    using merge_contributions [where src = "[(''x'', JArr [] []), (''y'', JObj [(''w'', JNum 3)])]"
        and acc = "[(''x'', JArr [] []), (''y'', JObj [(''u'', JNum 1)])]" and x = "''x''"
        and a = "[]" and ps = "[]" and b = "[]" and qs = "[]" and key = "''contributionPoints''"
        and vso = "[(''contributionPoints'',
                      JObj [(''x'', JArr [] []), (''y'', JObj [(''u'', JNum 1)])])]"
        and vsix = JNull and f = "''contributionPoints''" and y = "''y''"
        and oa = "[(''u'', JNum 1)]" and ob = "[(''w'', JNum 3)]"] l o
    by simp
  have e1: "merge (example_env small_template
            [(''a'', JObj [(''contributions'', JObj [(''x'', JArr [JNum 1] [])])]),
             (''b'', JObj [(''contributions'', JObj [(''x'', JArr [JNum 2] [])])])]
            [(''/r/a.json'', ''a''), (''/r/b.json'', ''b'')])
     = ([], Fulfilled (JObj
          [(''vsoManifest'',
              JObj [(''__meta_root'', JStr ''/r''),
                    (''contributions'', JObj [(''x'', JArr [JNum 1, JNum 2] [])])]),
           (''vsixManifest'',
              JObj [(''PackageManifest'', JObj []), (''__meta_root'', JStr ''/r'')])]))"
    by (simp add: merge_eval)
  have e2: "merge (example_env small_template
            [(''a'', JObj [(''contributionPoints'', JObj [(''x'', JArr [JNum 1] [])])]),
             (''b'', JObj [(''contributionPoints'', JObj [(''x'', JArr [JNum 2] [])])])]
            [(''/r/a.json'', ''a''), (''/r/b.json'', ''b'')])
     = ([], Fulfilled (JObj
          [(''vsoManifest'',
              JObj [(''__meta_root'', JStr ''/r''),
                    (''contributionPoints'', JObj [(''x'', JArr [JNum 2] [])])]),
           (''vsixManifest'',
              JObj [(''PackageManifest'', JObj []), (''__meta_root'', JStr ''/r'')])]))"
    by (simp add: merge_eval)
  have e3: "merge (example_env small_template
            [(''a'', JObj [(''contributionPoints'', JObj [(''x'', JArr [JObj [(''u'', JNum 1)]] [])])]),
             (''b'', JObj [(''contributionPoints'', JObj [(''x'', JArr [JObj [(''w'', JNum 3)]] [])])])]
            [(''/r/a.json'', ''a''), (''/r/b.json'', ''b'')])
     = ([], Fulfilled (JObj
          [(''vsoManifest'',
              JObj [(''__meta_root'', JStr ''/r''),
                    (''contributionPoints'',
                       JObj [(''x'', JArr [JObj [(''u'', JNum 1), (''w'', JNum 3)]] [])])]),
           (''vsixManifest'',
              JObj [(''PackageManifest'', JObj []), (''__meta_root'', JStr ''/r'')])]))"
    by (simp add: merge_eval)
  from a b c d e1 e2 e3 show ?thesis by blast
qed

section \<open>Properties of the \<open>assets\<close> rule\<close>

lemma AssetList_split: "AssetList = [Key ''PackageManifest'', Key ''Assets'', Idx 0] @ [Key ''Asset'']"
  by (simp add: AssetList_def)

lemma AssetList_split2: "AssetList = [Key ''PackageManifest'', Key ''Assets''] @ [Idx 0, Key ''Asset'']"
  by (simp add: AssetList_def)

lemma push_asset_ok:
  assumes "getIn AssetList v = Inr (JArr es ps)" and "map_of ps ''push'' = None"
    and "asset_entry a = Inr e"
  shows "\<exists>v'. push_asset v a = Inr v' \<and> getIn AssetList v' = Inr (JArr (es @ [e]) ps)
           \<and> (\<forall>r. sep_path [Key ''PackageManifest'', Key ''Assets''] r \<longrightarrow> getIn r v' = getIn r v)"
proof -
  have o: "isObject (JArr es ps)" by (simp add: isObject_def)
  have ne: "AssetList \<noteq> []" by (simp add: AssetList_def)
  from putIn_replace [OF assms(1) o ne, of "JArr (es @ [e]) ps"]
  obtain v' where p: "putIn AssetList (JArr (es @ [e]) ps) v = Inr v'"
    and g: "getIn AssetList v' = Inr (JArr (es @ [e]) ps)"
    by auto
  have "getIn r v' = getIn r v" if "sep_path [Key ''PackageManifest'', Key ''Assets''] r" for r
  proof -
    have "sep_path AssetList r"
      unfolding AssetList_split2 using that by (rule sep_path_append)
    then show ?thesis by (rule putIn_other [OF p])
  qed
  with p g assms show ?thesis by (simp add: push_asset_def)
qed

lemma push_assets_ok:
  "getIn AssetList v = Inr (JArr es ps) \<Longrightarrow> map_of ps ''push'' = None \<Longrightarrow>
   list_all2 (\<lambda>a e. asset_entry a = Inr e) as ents \<Longrightarrow>
   \<exists>v'. forEach push_asset as v = Inr v' \<and> getIn AssetList v' = Inr (JArr (es @ ents) ps)
      \<and> (\<forall>r. sep_path [Key ''PackageManifest'', Key ''Assets''] r \<longrightarrow> getIn r v' = getIn r v)"
proof (induction as arbitrary: v es ents)
  case Nil
  then show ?case by simp
next
  case (Cons a as)
  from Cons.prems(3) obtain e ents' where ents: "ents = e # ents'"
    and e: "asset_entry a = Inr e" and rest: "list_all2 (\<lambda>a e. asset_entry a = Inr e) as ents'"
    by (auto simp: list_all2_Cons1)
  from push_asset_ok [OF Cons.prems(1,2) e] obtain v1 where
    p1: "push_asset v a = Inr v1" and g1: "getIn AssetList v1 = Inr (JArr (es @ [e]) ps)"
    and f1: "\<forall>r. sep_path [Key ''PackageManifest'', Key ''Assets''] r \<longrightarrow> getIn r v1 = getIn r v"
    by blast
  from Cons.IH [OF g1 Cons.prems(2) rest] obtain v' where
    "forEach push_asset as v1 = Inr v'" "getIn AssetList v' = Inr (JArr ((es @ [e]) @ ents') ps)"
    "\<forall>r. sep_path [Key ''PackageManifest'', Key ''Assets''] r \<longrightarrow> getIn r v' = getIn r v1"
    by blast
  with p1 f1 ents show ?case by simp
qed

lemma asset_entry_iff:
  "asset_entry a = Inr e \<longleftrightarrow>
   (\<exists>t p. getProp a ''type'' = Inr t \<and> getProp a ''path'' = Inr (JStr p)
      \<and> e = JObj [(''$'', JObj [(''Type'', t), (''d:Source'', JStr ''File''),
                                (''Path'', JStr (slashes p))])])"
  by (cases "getProp a ''type''"; cases "getProp a ''path''")
    (auto simp: asset_entry_def split: jsval.splits)

lemma assets_replaced:
  assumes "getIn [Key ''PackageManifest''] vsix = Inr pm" and "isObject pm"
    and "map_of ps ''forEach'' = None"
    and "list_all2 (\<lambda>a e. asset_entry a = Inr e) as es"
    and "toLowerCase key = ''assets''"
  shows "\<exists>vsix'. mergeKey key (JArr as ps) vso vsix = Inr (vso, vsix')
      \<and> getIn AssetList vsix' = Inr (JArr es [])
      \<and> (\<forall>r. sep_path [Key ''PackageManifest'', Key ''Assets''] r \<longrightarrow> getIn r vsix' = getIn r vsix)"
proof -
  let ?A0 = "JArr [JObj [(''Asset'', JArr [] [])]] []"
  from putIn_same [OF assms(1,2), of "Key ''Assets''" ?A0] obtain v1 where
    p: "putIn [Key ''PackageManifest'', Key ''Assets''] ?A0 vsix = Inr v1"
    and g: "getIn [Key ''PackageManifest'', Key ''Assets''] v1 = Inr ?A0" by auto
  have "getIn AssetList v1
      = andThen (getIn [Key ''PackageManifest'', Key ''Assets''] v1) (getIn [Idx 0, Key ''Asset''])"
    unfolding AssetList_split2 by (rule getIn_append)
  then have g1: "getIn AssetList v1 = Inr (JArr [] [])"
    unfolding g by (simp add: lookup_def)
  have f0: "\<forall>r. sep_path [Key ''PackageManifest'', Key ''Assets''] r \<longrightarrow> getIn r v1 = getIn r vsix"
    using putIn_other [OF p] by blast
  from push_assets_ok [OF g1 _ assms(4)] obtain v' where
    "forEach push_asset as v1 = Inr v'" "getIn AssetList v' = Inr (JArr es [])"
    "\<forall>r. sep_path [Key ''PackageManifest'', Key ''Assets''] r \<longrightarrow> getIn r v' = getIn r v1"
    by auto
  with p f0 assms(3,5) show ?thesis by (simp add: mergeKey_def isArray_def)
qed

lemma slashes_spec:
  "length (slashes s) = length s \<and> CHR 0x5C \<notin> set (slashes s)
   \<and> (\<forall>i<length s. slashes s ! i = (if s ! i = CHR 0x5C then CHR ''/'' else s ! i))"
  by (auto simp: slashes_def)


text \<open>
  Claim C3. When the value of an \<open>assets\<close> key (in any letter case) is an array, the rule
  replaces \<open>PackageManifest.Assets[0].Asset\<close> by the list of one entry per declared asset,
  whatever the list held before; the entry of an asset carries \<open>Type\<close> equal to
  \<open>asset.type\<close>, \<open>d:Source\<close> equal to \<open>File\<close>, and \<open>Path\<close> equal to \<open>asset.path\<close> with
  every backslash turned into a forward slash. A value that is no array leaves both
  manifests as they are. (The manifest has an object \<open>PackageManifest\<close>, and every
  declared asset has a string \<open>path\<close>.)
\<close>

theorem mergeKey_assets:
  assumes "toLowerCase key = ''assets''"
  shows
    "(\<not> isArray val \<longrightarrow> mergeKey key val vso vsix = Inr (vso, vsix))
   \<and> (getIn [Key ''PackageManifest''] vsix = Inr pm \<and> isObject pm \<and> map_of ps ''forEach'' = None
      \<and> list_all2 (\<lambda>a e. \<exists>t p. getProp a ''type'' = Inr t \<and> getProp a ''path'' = Inr (JStr p)
            \<and> e = JObj [(''$'', JObj [(''Type'', t), (''d:Source'', JStr ''File''),
                                      (''Path'', JStr (slashes p))])]) as es
      \<longrightarrow> (\<exists>vsix'. mergeKey key (JArr as ps) vso vsix = Inr (vso, vsix')
             \<and> getIn AssetList vsix' = Inr (JArr es [])))
   \<and> (length (slashes s) = length s \<and> CHR 0x5C \<notin> set (slashes s)
      \<and> (\<forall>i<length s. slashes s ! i = (if s ! i = CHR 0x5C then CHR ''/'' else s ! i)))"
proof -
  have 1: "\<not> isArray val \<longrightarrow> mergeKey key val vso vsix = Inr (vso, vsix)"
    using assms by (simp add: mergeKey_def)
  have 2: "\<exists>vsix'. mergeKey key (JArr as ps) vso vsix = Inr (vso, vsix')
             \<and> getIn AssetList vsix' = Inr (JArr es [])"
    if "getIn [Key ''PackageManifest''] vsix = Inr pm" "isObject pm" "map_of ps ''forEach'' = None"
      and l: "list_all2 (\<lambda>a e. \<exists>t p. getProp a ''type'' = Inr t \<and> getProp a ''path'' = Inr (JStr p)
            \<and> e = JObj [(''$'', JObj [(''Type'', t), (''d:Source'', JStr ''File''),
                                      (''Path'', JStr (slashes p))])]) as es"
  proof -
    from l have "list_all2 (\<lambda>a e. asset_entry a = Inr e) as es"
      by (simp add: asset_entry_iff)
    from assets_replaced [OF that(1,2,3) this assms] show ?thesis by blast
  qed
  from 1 2 slashes_spec [of s] show ?thesis by blast
qed

theorem mergeKey_assets_witness:
  "toLowerCase ''Assets'' = ''assets''
 \<and> mergeKey ''Assets'' (JStr ''img/a.png'') (JObj []) small_template = Inr (JObj [], small_template)
 \<and> (\<exists>vsix'. mergeKey ''Assets''
               (JArr [JObj [(''type'', JStr ''png''), (''path'', JStr (''img'' @ [CHR 0x5C] @ ''a.png''))]] [])
               (JObj [])
               (JObj [(''PackageManifest'', JObj [(''Assets'',
                  JArr [JObj [(''Asset'', JArr [JObj [(''$'', JObj [(''Type'', JStr ''old'')])]] [])]] [])])])
             = Inr (JObj [], vsix')
        \<and> getIn AssetList vsix'
             = Inr (JArr [JObj [(''$'', JObj [(''Type'', JStr ''png''), (''d:Source'', JStr ''File''),
                                              (''Path'', JStr ''img/a.png'')])]] []))
 \<and> slashes (''img'' @ [CHR 0x5C] @ ''a.png'') = ''img/a.png''"
proof -
  have k: "toLowerCase ''Assets'' = ''assets''" by (simp add: toLowerCase_def lower_char_def)
  let ?vsix = "JObj [(''PackageManifest'', JObj [(''Assets'',
                  JArr [JObj [(''Asset'', JArr [JObj [(''$'', JObj [(''Type'', JStr ''old'')])]] [])]] [])])]"
  have s: "slashes (''img'' @ [CHR 0x5C] @ ''a.png'') = ''img/a.png''" by (simp add: slashes_def)
  have a: "mergeKey ''Assets'' (JStr ''img/a.png'') (JObj []) small_template = Inr (JObj [], small_template)"
    using mergeKey_assets [OF k, where val = "JStr ''img/a.png''" and vso = "JObj []"
        and vsix = small_template]
    by (simp add: isArray_def)
  have b: "\<exists>vsix'. mergeKey ''Assets''
               (JArr [JObj [(''type'', JStr ''png''), (''path'', JStr (''img'' @ [CHR 0x5C] @ ''a.png''))]] [])
               (JObj []) ?vsix = Inr (JObj [], vsix')
        \<and> getIn AssetList vsix'
             = Inr (JArr [JObj [(''$'', JObj [(''Type'', JStr ''png''), (''d:Source'', JStr ''File''),
                                              (''Path'', JStr ''img/a.png'')])]] [])"
    using mergeKey_assets [OF k, where vsix = ?vsix and vso = "JObj []" and ps = "[]"
        and pm = "JObj [(''Assets'', JArr [JObj [(''Asset'', JArr [JObj [(''$'', JObj [(''Type'', JStr ''old'')])]] [])]] [])]"
        and as = "[JObj [(''type'', JStr ''png''), (''path'', JStr (''img'' @ [CHR 0x5C] @ ''a.png''))]]"
        and es = "[JObj [(''$'', JObj [(''Type'', JStr ''png''), (''d:Source'', JStr ''File''),
                              (''Path'', JStr ''img/a.png'')])]]"] s
    by (simp add: isObject_def lookup_def getProp_def)
  from k a b s show ?thesis by blast
qed


section \<open>Failures of the merge\<close>


lemma all_results_Inl: "Inl e \<in> set rs \<Longrightarrow> \<exists>e'. all_results rs = Inl e'"
proof (induction rs)
  case Nil
  then show ?case by simp
next
  case (Cons r rs)
  then show ?case by (cases r; cases "all_results rs") auto
qed


lemma andThen_Inl_iff: "andThen r f = Inl e \<longleftrightarrow> r = Inl e \<or> (\<exists>x. r = Inr x \<and> f x = Inl e)"
  by (cases r) auto

lemma load_manifest_failure:
  "JSON_parse env data = None \<Longrightarrow>
   load_manifest (JSON_parse env) (file, data) = (parse_error_lines file data, Inl SyntaxError)"
  by (simp add: load_manifest_def)

lemma merge_chain_parse_failure:
  assumes "(file, data) \<in> set (files env)" and "JSON_parse env data = None"
  shows "\<exists>e. merge_chain env = Inl e"
proof -
  let ?results = "map (\<lambda>fd. snd (load_manifest (JSON_parse env) fd)) (files env)"
  have "snd (load_manifest (JSON_parse env) (file, data)) \<in> set ?results"
    using assms(1) by (simp only: set_map) (rule imageI)
  then have "Inl SyntaxError \<in> set ?results"
    by (simp only: load_manifest_failure [OF assms(2)] snd_conv)
  from all_results_Inl [OF this] obtain e' where a: "all_results ?results = Inl e'" ..
  show ?thesis
    unfolding merge_chain_def a
    by (cases "putMember (template env) (Key ''__meta_root'') (JStr (root env))") auto
qed

lemma until_rejected_split:
  "until_rejected l = (before, after) \<Longrightarrow>
   \<exists>l1 l2. l = l1 @ l2 \<and> before = concat (map fst l1) \<and> after = concat (map fst l2)"
proof (induction l arbitrary: before after)
  case Nil
  then show ?case by simp
next
  case (Cons p l)
  obtain ls r where p: "p = (ls, r)" by (cases p)
  show ?case
  proof (cases r)
    case (Inl e)
    with Cons.prems p have "before = concat (map fst [p])" "after = concat (map fst l)" by auto
    then show ?thesis by (metis append_Cons append_Nil)
  next
    case (Inr x)
    obtain b a where u: "until_rejected l = (b, a)" by (cases "until_rejected l")
    from Cons.IH [OF u] obtain l1 l2 where
      l: "l = l1 @ l2" "b = concat (map fst l1)" "a = concat (map fst l2)" by blast
    from Cons.prems p Inr u have "before = ls @ b" "after = a" by auto
    with l p have "p # l = (p # l1) @ l2 \<and> before = concat (map fst (p # l1))
        \<and> after = concat (map fst l2)" by simp
    then show ?thesis by blast
  qed
qed

lemma lines_in_concat: "x \<in> set l \<Longrightarrow> \<exists>pre post. concat (map fst l) = pre @ fst x @ post"
proof -
  assume "x \<in> set l"
  then obtain ys zs where "l = ys @ x # zs" by (auto simp: in_set_conv_decomp)
  then have "concat (map fst l) = concat (map fst ys) @ fst x @ concat (map fst zs)" by simp
  then show ?thesis by blast
qed

lemma printed_lines_of_callback:
  assumes "x \<in> set (map (load_manifest (JSON_parse env)) (files env))"
  shows "\<exists>pre post. printed_lines env = pre @ fst x @ post"
proof (cases "putMember (template env) (Key ''__meta_root'') (JStr (root env))")
  case (Inl e)
  from lines_in_concat [OF assms] obtain pre post where
    "concat (map fst (map (load_manifest (JSON_parse env)) (files env))) = pre @ fst x @ post"
    by blast
  with Inl have "printed_lines env = (Error e # pre) @ fst x @ post"
    by (simp add: printed_lines_def)
  then show ?thesis by blast
next
  case (Inr vsix)
  let ?loaded = "map (load_manifest (JSON_parse env)) (files env)"
  obtain b a where u: "until_rejected ?loaded = (b, a)" by (cases "until_rejected ?loaded")
  from until_rejected_split [OF u] obtain l1 l2 where
    l: "?loaded = l1 @ l2" "b = concat (map fst l1)" "a = concat (map fst l2)" by blast
  from assms l(1) have "x \<in> set l1 \<or> x \<in> set l2" by auto
  then have "(\<exists>pre post. b = pre @ fst x @ post) \<or> (\<exists>pre post. a = pre @ fst x @ post)"
    using lines_in_concat [of x l1] lines_in_concat [of x l2] l(2,3) by auto
  then have s: "\<exists>pre post. b @ m @ a = pre @ fst x @ post" for m
  proof
    assume "\<exists>pre post. b = pre @ fst x @ post"
    then obtain pre post where "b = pre @ fst x @ post" by blast
    then have "b @ m @ a = pre @ fst x @ (post @ m @ a)" by simp
    then show ?thesis by blast
  next
    assume "\<exists>pre post. a = pre @ fst x @ post"
    then obtain pre post where "a = pre @ fst x @ post" by blast
    then have "b @ m @ a = (b @ m @ pre) @ fst x @ post" by simp
    then show ?thesis by blast
  qed
  show ?thesis
  proof (cases "merge_chain env")
    case (Inl e)
    with Inr u have "printed_lines env = b @ [Error e] @ a" by (simp add: printed_lines_def)
    with s [of "[Error e]"] show ?thesis by simp
  next
    case r: (Inr manifests)
    with Inr u have "printed_lines env = b @ [] @ a" by (simp add: printed_lines_def)
    with s [of "[]"] show ?thesis by simp
  qed
qed

lemma printed_lines_error: "merge_chain env = Inl e \<Longrightarrow> Error e \<in> set (printed_lines env)"
proof (cases "putMember (template env) (Key ''__meta_root'') (JStr (root env))")
  case (Inl e0)
  assume "merge_chain env = Inl e"
  with Inl show ?thesis by (simp add: printed_lines_def merge_chain_def)
next
  case (Inr vsix)
  assume "merge_chain env = Inl e"
  with Inr show ?thesis
    by (cases "until_rejected (map (load_manifest (JSON_parse env)) (files env))")
      (simp add: printed_lines_def)
qed

lemma merge_no_manifests:
  "merge_chain env = Inl e \<Longrightarrow>
   Error e \<in> set (fst (merge env)) \<and> snd (merge env) = Fulfilled JUndef"
  by (simp add: merge_def printed_lines_error)









text \<open>
  The order of the printed lines when two files fail to parse: the rejection of the
  first is printed before the callback of the second runs.
\<close>

lemma merge_prints_rejection_first:
  "merge (example_env small_template [] [(''/r/a.json'', ''{''), (''/r/b.json'', ''['')])
     = ([Log ''Error parsing the JSON in /r/a.json: '', Log ''{'', Error SyntaxError,
         Log ''Error parsing the JSON in /r/b.json: '', Log ''[''],
        Fulfilled JUndef)"
  by (simp add: merge_eval parse_error_lines_def)

text \<open>
  Claim C7, as stated: when a manifest file fails to parse, the result of the merge is
  an error. The promise chain of \<open>merge\<close> ends with \<open>.catch(console.error.bind(console))\<close>,
  so the rejection is printed and the promise that \<open>merge\<close> returns is fulfilled, with
  \<open>undefined\<close>: for one file holding \<open>{\<close>, the caller receives no error.
\<close>

theorem merge_swallows_parse_error_counterexample:
  "JSON_parse (example_env small_template [] [(''/r/a.json'', ''{'')]) ''{'' = None
 \<and> merge (example_env small_template [] [(''/r/a.json'', ''{'')])
     = ([Log ''Error parsing the JSON in /r/a.json: '', Log ''{'', Error SyntaxError],
        Fulfilled JUndef)
 \<and> snd (merge (example_env small_template [] [(''/r/a.json'', ''{'')])) \<noteq> Rejected SyntaxError"
  by (simp add: merge_eval parse_error_lines_def)

text \<open>
  Claim C7, amended. If any one of the manifest files fails to parse, the merge prints
  the path of the failing file and its raw text (two lines, one after the other) and
  it prints an error, and it produces no pair of manifests: the promise it returns is
  fulfilled with \<open>undefined\<close> (the error is printed, not passed to the caller). A pair of
  manifests is produced only when every file parses.
\<close>

theorem merge_parse_failure:
  "((file, data) \<in> set (files env) \<and> JSON_parse env data = None \<longrightarrow>
      (\<exists>pre post.
         fst (merge env) = pre @ [Log (''Error parsing the JSON in '' @ file @ '': ''), Log data] @ post)
      \<and> (\<exists>e. Error e \<in> set (fst (merge env)))
      \<and> snd (merge env) = Fulfilled JUndef)
 \<and> (snd (merge env) \<noteq> Fulfilled JUndef \<longrightarrow>
      (\<forall>fd\<in>set (files env). JSON_parse env (snd fd) \<noteq> None))"
proof -
  have 1: "(\<exists>pre post.
         fst (merge env) = pre @ [Log (''Error parsing the JSON in '' @ f @ '': ''), Log d] @ post)
      \<and> (\<exists>e. Error e \<in> set (fst (merge env)))
      \<and> snd (merge env) = Fulfilled JUndef"
    if a: "(f, d) \<in> set (files env)" "JSON_parse env d = None" for f d
  proof -
    from merge_chain_parse_failure [OF a] obtain e where e: "merge_chain env = Inl e" ..
    have "load_manifest (JSON_parse env) (f, d)
        \<in> set (map (load_manifest (JSON_parse env)) (files env))"
      using a(1) by (simp only: set_map) (rule imageI)
    from printed_lines_of_callback [OF this] obtain pre post where
      "printed_lines env = pre @ fst (load_manifest (JSON_parse env) (f, d)) @ post" by blast
    then have "fst (merge env)
        = pre @ [Log (''Error parsing the JSON in '' @ f @ '': ''), Log d] @ post"
      by (simp add: merge_def load_manifest_failure [OF a(2)] parse_error_lines_def)
    with merge_no_manifests [OF e] show ?thesis by blast
  qed
  have 2: "JSON_parse env (snd fd) \<noteq> None"
    if "snd (merge env) \<noteq> Fulfilled JUndef" "fd \<in> set (files env)" for fd
  proof
    assume n: "JSON_parse env (snd fd) = None"
    have "(fst fd, snd fd) \<in> set (files env)" using that(2) by simp
    from 1 [OF this n] that(1) show False by auto
  qed
  from 1 2 show ?thesis by blast
qed

theorem merge_parse_failure_witness:
  "(''/r/b.json'', ''['') \<in> set (files (example_env small_template [(''a'', JObj [])]
                                        [(''/r/a.json'', ''a''), (''/r/b.json'', ''['')]))
 \<and> JSON_parse (example_env small_template [(''a'', JObj [])]
                 [(''/r/a.json'', ''a''), (''/r/b.json'', ''['')]) ''['' = None
 \<and> (\<exists>pre post.
       fst (merge (example_env small_template [(''a'', JObj [])]
                     [(''/r/a.json'', ''a''), (''/r/b.json'', ''['')]))
         = pre @ [Log ''Error parsing the JSON in /r/b.json: '', Log ''[''] @ post)
 \<and> (\<exists>e. Error e \<in> set (fst (merge (example_env small_template [(''a'', JObj [])]
                                       [(''/r/a.json'', ''a''), (''/r/b.json'', ''['')]))))
 \<and> snd (merge (example_env small_template [(''a'', JObj [])]
                 [(''/r/a.json'', ''a''), (''/r/b.json'', ''['')])) = Fulfilled JUndef
 \<and> snd (merge (example_env small_template [(''a'', JObj [])] [(''/r/a.json'', ''a'')]))
       \<noteq> Fulfilled JUndef
 \<and> JSON_parse (example_env small_template [(''a'', JObj [])] [(''/r/a.json'', ''a'')]) ''a''
       \<noteq> None"
proof -
  let ?E = "example_env small_template [(''a'', JObj [])]
              [(''/r/a.json'', ''a''), (''/r/b.json'', ''['')]"
  have m: "(''/r/b.json'', ''['') \<in> set (files ?E)" and n: "JSON_parse ?E ''['' = None"
    by (simp_all add: example_env_def)
  have "(\<exists>pre post.
       fst (merge ?E) = pre @ [Log (''Error parsing the JSON in '' @ ''/r/b.json'' @ '': ''), Log ''['']
                          @ post)
     \<and> (\<exists>e. Error e \<in> set (fst (merge ?E))) \<and> snd (merge ?E) = Fulfilled JUndef"
    using merge_parse_failure [of "''/r/b.json''" "''[''" ?E] m n by blast
  then have e: "\<exists>pre post.
       fst (merge ?E) = pre @ [Log ''Error parsing the JSON in /r/b.json: '', Log ''[''] @ post"
    "\<exists>e. Error e \<in> set (fst (merge ?E))" "snd (merge ?E) = Fulfilled JUndef"
    by simp_all
  have g: "snd (merge (example_env small_template [(''a'', JObj [])] [(''/r/a.json'', ''a'')]))
       \<noteq> Fulfilled JUndef"
    "JSON_parse (example_env small_template [(''a'', JObj [])] [(''/r/a.json'', ''a'')]) ''a''
       \<noteq> None"
    by (simp_all add: merge_eval)
  from m n e g show ?thesis by blast
qed




text \<open>
  The resolver reads the property \<open>assets\<close> alone, while \<open>mergeKey\<close> takes the key in any
  letter case: the entries under a key \<open>Assets\<close> are merged as they are, neither checked
  nor rebased.
\<close>

lemma assets_key_spelling:
  "merge (example_env small_template
            [(''a'', JObj [(''Assets'',
                 JArr [JObj [(''type'', JStr ''png''), (''path'', JStr ''/img/a.png'')]] [])])]
            [(''/r/a.json'', ''a'')])
     = ([], Fulfilled (JObj
          [(''vsoManifest'', JObj [(''__meta_root'', JStr ''/r'')]),
           (''vsixManifest'',
              JObj [(''PackageManifest'',
                      JObj [(''Assets'', JArr [JObj [(''Asset'',
                         JArr [JObj [(''$'', JObj [(''Type'', JStr ''png''),
                                                   (''d:Source'', JStr ''File''),
                                                   (''Path'', JStr ''/img/a.png'')])]] [])]] [])]),
                    (''__meta_root'', JStr ''/r'')])]))"
  by (simp add: merge_eval resolve_asset_def asset_entry_def push_asset_def AssetList_def
      slashes_def)

section \<open>Properties of \<open>prepManifests\<close>\<close>


lemma getIn_walk: "getIn p j = Inr x \<Longrightarrow> walk p j = x"
proof (induction p arbitrary: j)
  case Nil
  then show ?case by simp
next
  case (Cons k p)
  then obtain c where c: "getMember j k = Inr c" and r: "getIn p c = Inr x"
    by (auto simp: andThen_Inr_iff)
  from c have "\<not> is_nullish j" by (cases j) (auto simp: is_nullish_def)
  with c Cons.IH [OF r] show ?case by (simp add: member_def)
qed

lemma walk_getIn: "walk p j = x \<Longrightarrow> x \<noteq> JUndef \<Longrightarrow> getIn p j = Inr x"
proof (induction p arbitrary: j)
  case Nil
  then show ?case by simp
next
  case (Cons k p)
  then have n: "\<not> is_nullish j" by auto
  then obtain c where c: "getMember j k = Inr c" by (cases j) (auto simp: is_nullish_def)
  with Cons n show ?case by (simp add: member_def)
qed

lemma remove_where_ok:
  "\<forall>e\<in>set es. \<exists>b. p e = Inr b \<Longrightarrow>
   remove_where p es = Inr (filter (\<lambda>e. p e = Inr False) es)"
  by (induction es) auto

lemma putMember_idem: "getMember j k = Inr x \<Longrightarrow> x \<noteq> JUndef \<Longrightarrow> putMember j k x = Inr j"
proof (cases j)
  case (JObj kvs)
  have "map_of kvs s = Some v \<Longrightarrow> assign kvs s v = kvs" for s v
    by (simp add: assign_def replace_value_same)
  moreover assume "getMember j k = Inr x" "x \<noteq> JUndef"
  ultimately show ?thesis using JObj by (auto simp: lookup_def split: option.splits)
next
  case (JArr xs ps)
  have "map_of ps s = Some v \<Longrightarrow> assign ps s v = ps" for s v
    by (simp add: assign_def replace_value_same)
  moreover assume "getMember j k = Inr x" "x \<noteq> JUndef"
  ultimately show ?thesis using JArr
    by (auto simp: lookup_def array_put_def split: option.splits if_splits)
qed auto

lemma putIn_idem: "getIn p j = Inr x \<Longrightarrow> x \<noteq> JUndef \<Longrightarrow> p \<noteq> [] \<Longrightarrow> putIn p x j = Inr j"
proof (induction p x j rule: putIn.induct)
  case (1 v j)
  then show ?case by simp
next
  case (2 k v j)
  then show ?case by (simp add: andThen_Inr_iff putMember_idem)
next
  case (3 k k1 ks v j)
  from "3.prems"(1) obtain c where c: "getMember j k = Inr c" and r: "getIn (k1 # ks) c = Inr v"
    by (auto simp: andThen_Inr_iff)
  have "c \<noteq> JUndef" using r by (auto simp: andThen_Inr_iff)
  with "3.IH" [OF r "3.prems"(2)] c show ?case by (simp add: putMember_idem)
qed

lemma putMember_has_key:
  "putMember j k v = Inr j' \<Longrightarrow> key_str k \<noteq> n \<Longrightarrow> as_index n = None \<Longrightarrow>
   has_key j' (Key n) = has_key j (Key n)"
  by (cases j) (auto simp: map_of_assign split: option.splits)

lemma putIn_has_key:
  "putIn (k # ks) v j = Inr j' \<Longrightarrow> key_str k \<noteq> n \<Longrightarrow> as_index n = None \<Longrightarrow>
   has_key j' (Key n) = has_key j (Key n)"
  by (cases ks) (auto simp: andThen_Inr_iff dest: putMember_has_key)

lemma as_index_AssetListKey: "as_index AssetListKey = None"
  by (simp add: as_index_def AssetListKey_def is_digit_def)

lemma is_vso_manifest_manifest_asset: "is_vso_manifest manifest_asset = Inr True"
  by (simp add: is_vso_manifest_def manifest_asset_def get_lodash_def is_nullish_def lookup_def
      toLowerCase_def lower_char_def)

lemma prepManifests_array:
  assumes "getIn AssetList vsix = Inr (JArr es ps)" and "\<not> has_key vsix (Key AssetListKey)"
    and "map_of ps ''push'' = None" and "\<forall>e\<in>set es. \<exists>b. is_vso_manifest e = Inr b"
  shows "\<exists>v'. prepManifests vsix = Inr v'
     \<and> getIn AssetList v'
          = Inr (JArr (filter (\<lambda>e. is_vso_manifest e = Inr False) es @ [manifest_asset]) ps)
     \<and> \<not> has_key v' (Key AssetListKey)"
proof -
  let ?new = "JArr (filter (\<lambda>e. is_vso_manifest e = Inr False) es @ [manifest_asset]) ps"
  have ne: "AssetList \<noteq> []" by (simp add: AssetList_def)
  have o: "isObject (JArr es ps)" by (simp add: isObject_def)
  from putIn_replace [OF assms(1) o ne, of ?new] obtain v' where
    p: "putIn AssetList ?new vsix = Inr v'" and g: "getIn AssetList v' = Inr ?new" by auto
  have w: "walk AssetList vsix = JArr es ps" using getIn_walk [OF assms(1)] .
  have n: "\<not> is_nullish vsix" using assms(1) by (cases vsix) (auto simp: AssetList_def is_nullish_def)
  have a: "get_lodash vsix AssetListKey AssetList JUndef = JArr es ps"
    using w n assms(2) ne by (simp add: get_lodash_def)
  have h: "has_key v' (Key AssetListKey) = has_key vsix (Key AssetListKey)"
  proof (rule putIn_has_key [OF _ _ as_index_AssetListKey])
    show "putIn (Key ''PackageManifest'' # [Key ''Assets'', Idx 0, Key ''Asset'']) ?new vsix = Inr v'"
      using p by (simp only: AssetList_def)
    show "key_str (Key ''PackageManifest'') \<noteq> AssetListKey"
      by (simp add: AssetListKey_def)
  qed
  have "prepManifests vsix = Inr v'"
    using a assms(2,3) remove_where_ok [OF assms(4)] p by (simp add: prepManifests_def)
  with g h assms(2) show ?thesis by simp
qed


lemma prepManifests_eq:
  assumes "getIn AssetList vsix = Inr (JArr es ps)" and "\<not> has_key vsix (Key AssetListKey)"
    and "map_of ps ''push'' = None" and "\<forall>e\<in>set es. \<exists>b. is_vso_manifest e = Inr b"
  shows "prepManifests vsix
     = putIn AssetList (JArr (filter (\<lambda>e. is_vso_manifest e = Inr False) es @ [manifest_asset]) ps) vsix"
proof -
  have ne: "AssetList \<noteq> []" by (simp add: AssetList_def)
  have w: "walk AssetList vsix = JArr es ps" using getIn_walk [OF assms(1)] .
  have n: "\<not> is_nullish vsix" using assms(1) by (cases vsix) (auto simp: AssetList_def is_nullish_def)
  have a: "get_lodash vsix AssetListKey AssetList JUndef = JArr es ps"
    using w n assms(2) ne by (simp add: get_lodash_def)
  show ?thesis
    using a assms(2,3) remove_where_ok [OF assms(4)] by (simp add: prepManifests_def)
qed


text \<open>
  Where the package manifest has an asset list, the preparation step does what it is
  meant to do. If \<open>PackageManifest.Assets[0].Asset\<close> is an array of entries with a string
  (or no) \<open>$.Type\<close>, the step succeeds, and running it a second time changes nothing: the
  array then holds the entries that are not of the reserved type (compared without
  regard to case), followed by exactly one entry of type \<open>Microsoft.VSO.Manifest\<close> with
  the path \<open>extension.vsomanifest\<close>.
\<close>

lemma prepManifests_with_asset_list:
  assumes "getIn AssetList vsix = Inr (JArr es ps)" and "\<not> has_key vsix (Key AssetListKey)"
    and "map_of ps ''push'' = None" and "\<forall>e\<in>set es. \<exists>b. is_vso_manifest e = Inr b"
  shows "\<exists>v1 kept. prepManifests vsix = Inr v1 \<and> prepManifests v1 = Inr v1
     \<and> getIn AssetList v1 = Inr (JArr (kept @ [manifest_asset]) ps)
     \<and> kept = filter (\<lambda>e. is_vso_manifest e = Inr False) es
     \<and> is_vso_manifest manifest_asset = Inr True
     \<and> length (filter (\<lambda>e. is_vso_manifest e = Inr True) (kept @ [manifest_asset])) = 1"
proof -
  let ?kept = "filter (\<lambda>e. is_vso_manifest e = Inr False) es"
  from prepManifests_array [OF assms] obtain v1 where
    1: "prepManifests vsix = Inr v1"
    and g: "getIn AssetList v1 = Inr (JArr (?kept @ [manifest_asset]) ps)"
    and h: "\<not> has_key v1 (Key AssetListKey)" by blast
  have t: "\<forall>e\<in>set (?kept @ [manifest_asset]). \<exists>b. is_vso_manifest e = Inr b"
    by (auto simp: is_vso_manifest_manifest_asset)
  have f: "filter (\<lambda>e. is_vso_manifest e = Inr False) (?kept @ [manifest_asset]) = ?kept"
    by (simp add: is_vso_manifest_manifest_asset)
  have "prepManifests v1 = putIn AssetList (JArr (?kept @ [manifest_asset]) ps) v1"
    using prepManifests_eq [OF g h assms(3) t] unfolding f .
  also have "\<dots> = Inr v1"
    by (rule putIn_idem [OF g]) (simp_all add: AssetList_def)
  finally have 2: "prepManifests v1 = Inr v1" .
  have c: "length (filter (\<lambda>e. is_vso_manifest e = Inr True) (?kept @ [manifest_asset])) = 1"
    by (simp add: is_vso_manifest_manifest_asset filter_empty_conv)
  from 1 2 g c is_vso_manifest_manifest_asset show ?thesis by blast
qed


lemma prepManifests_with_asset_list_example:
  "getIn AssetList example_package
     = Inr (JArr [JObj [(''$'', JObj [(''Type'', JStr ''MICROSOFT.VSO.MANIFEST''),
                                      (''Path'', JStr ''old.vsomanifest'')])],
                  JObj [(''$'', JObj [(''Type'', JStr ''png''), (''d:Source'', JStr ''File''),
                                      (''Path'', JStr ''a.png'')])]] [])
 \<and> \<not> has_key example_package (Key AssetListKey)
 \<and> is_vso_manifest (JObj [(''$'', JObj [(''Type'', JStr ''MICROSOFT.VSO.MANIFEST''),
                                          (''Path'', JStr ''old.vsomanifest'')])]) = Inr True
 \<and> is_vso_manifest (JObj [(''$'', JObj [(''Type'', JStr ''png''), (''d:Source'', JStr ''File''),
                                          (''Path'', JStr ''a.png'')])]) = Inr False
 \<and> (\<exists>v1. prepManifests example_package = Inr v1 \<and> prepManifests v1 = Inr v1
        \<and> getIn AssetList v1
             = Inr (JArr [JObj [(''$'', JObj [(''Type'', JStr ''png''), (''d:Source'', JStr ''File''),
                                              (''Path'', JStr ''a.png'')])],
                          JObj [(''$'', JObj [(''Type'', JStr ''Microsoft.VSO.Manifest''),
                                              (''Path'', JStr ''extension.vsomanifest'')])]] []))"
proof -
  let ?old = "JObj [(''$'', JObj [(''Type'', JStr ''MICROSOFT.VSO.MANIFEST''),
                                  (''Path'', JStr ''old.vsomanifest'')])]"
  let ?png = "JObj [(''$'', JObj [(''Type'', JStr ''png''), (''d:Source'', JStr ''File''),
                                  (''Path'', JStr ''a.png'')])]"
  have g: "getIn AssetList example_package = Inr (JArr [?old, ?png] [])"
    by (simp add: example_package_def AssetList_def lookup_def)
  have h: "\<not> has_key example_package (Key AssetListKey)"
    by (simp add: example_package_def AssetListKey_def)
  have t: "is_vso_manifest ?old = Inr True" "is_vso_manifest ?png = Inr False"
    by (simp_all add: is_vso_manifest_def get_lodash_def is_nullish_def lookup_def
        toLowerCase_def lower_char_def)
  have a: "\<forall>e\<in>set [?old, ?png]. \<exists>b. is_vso_manifest e = Inr b"
    using t by auto
  have k: "filter (\<lambda>e. is_vso_manifest e = Inr False) [?old, ?png] = [?png]"
    using t by simp
  from prepManifests_with_asset_list [OF g h _ a] k
  have "\<exists>v1. prepManifests example_package = Inr v1 \<and> prepManifests v1 = Inr v1
        \<and> getIn AssetList v1 = Inr (JArr ([?png] @ [manifest_asset]) [])"
    by auto
  then have "\<exists>v1. prepManifests example_package = Inr v1 \<and> prepManifests v1 = Inr v1
        \<and> getIn AssetList v1
             = Inr (JArr [?png, JObj [(''$'', JObj [(''Type'', JStr ''Microsoft.VSO.Manifest''),
                                              (''Path'', JStr ''extension.vsomanifest'')])]] [])"
    by (simp add: manifest_asset_def VSO_MANIFEST_FILENAME_def)
  with g h t show ?thesis by blast
qed

text \<open>
  Claim C6: for every package manifest, two runs of the preparation step leave exactly
  one entry of the reserved type in \<open>Assets[0].Asset\<close>. Where the manifest has no asset
  list, the step takes its other branch, and there the new list is stored by
  \<open>_.set(this.vsixManifest, "PackageManifest.Assets[0].Asset[0]", assets)\<close>: as the first
  element of \<open>Asset\<close>, not as \<open>Asset\<close>. For the manifest \<open>{PackageManifest: {}}\<close> the first
  run leaves \<open>Asset == [[E]]\<close>, where \<open>E\<close> is the manifest entry: the list has one element,
  an array, and no entry of the reserved type. The second run finds that list, removes
  nothing from it and appends: \<open>Asset == [[E], E]\<close>, so the second run changes what the
  first has left. For the manifest \<open>{PackageManifest: {Assets: [""]}}\<close> the step writes
  nothing at all (\<open>_.set\<close> does not write into a string), and no number of runs adds the
  entry.
\<close>

theorem prepManifests_without_asset_list:
  "prepManifests small_template
     = Inr (JObj [(''PackageManifest'',
              JObj [(''Assets'', JArr [JObj [(''Asset'', JArr [JArr [manifest_asset] []] [])]] [])])])
 \<and> is_vso_manifest (JArr [manifest_asset] []) = Inr False
 \<and> andThen (prepManifests small_template) prepManifests
     = Inr (JObj [(''PackageManifest'',
              JObj [(''Assets'',
                 JArr [JObj [(''Asset'', JArr [JArr [manifest_asset] [], manifest_asset] [])]] [])])])
 \<and> andThen (prepManifests small_template) prepManifests \<noteq> prepManifests small_template
 \<and> prepManifests (JObj [(''PackageManifest'', JObj [(''Assets'', JArr [JStr []] [])])])
     = Inr (JObj [(''PackageManifest'', JObj [(''Assets'', JArr [JStr []] [])])])
 \<and> getIn AssetList (JObj [(''PackageManifest'', JObj [(''Assets'', JArr [JStr []] [])])])
     = Inr JUndef"
proof -
  note prep_eval = prepManifests_def get_lodash_def set_lodash_def is_nullish_def AssetListKey_def
    AssetList_def lookup_def member_def put_def is_vso_manifest_def toLowerCase_def lower_char_def
    array_put_def assign_eval isObject_def small_template_def
  let ?once = "JObj [(''PackageManifest'',
              JObj [(''Assets'', JArr [JObj [(''Asset'', JArr [JArr [manifest_asset] []] [])]] [])])]"
  let ?twice = "JObj [(''PackageManifest'',
              JObj [(''Assets'',
                 JArr [JObj [(''Asset'', JArr [JArr [manifest_asset] [], manifest_asset] [])]] [])])]"
  let ?empty = "JObj [(''PackageManifest'', JObj [(''Assets'', JArr [JStr []] [])])]"
  have 1: "prepManifests small_template = Inr ?once" by (simp add: prep_eval)
  have 2: "prepManifests ?once = Inr ?twice" by (simp add: prep_eval)
  have 3: "is_vso_manifest (JArr [manifest_asset] []) = Inr False" by (simp add: prep_eval)
  have 4: "prepManifests ?empty = Inr ?empty" by (simp add: prep_eval)
  have 5: "getIn AssetList ?empty = Inr JUndef" by (simp add: prep_eval)
  from 1 2 have 6: "andThen (prepManifests small_template) prepManifests = Inr ?twice" by simp
  from 1 6 have 7: "andThen (prepManifests small_template) prepManifests
      \<noteq> prepManifests small_template" by simp
  from 1 3 6 7 4 5 show ?thesis by blast
qed

section \<open>Properties of the emitted documents\<close>


lemma forEach_invariant:
  assumes "\<And>s x s'. f s x = Inr s' \<Longrightarrow> I s \<Longrightarrow> I s'"
  shows "forEach f xs s = Inr s' \<Longrightarrow> I s \<Longrightarrow> I s'"
proof (induction xs arbitrary: s)
  case Nil
  then show ?case by simp
next
  case (Cons x xs)
  then obtain s1 where 1: "f s x = Inr s1" and 2: "forEach f xs s1 = Inr s'"
    by (auto simp: andThen_Inr_iff)
  from Cons.IH [OF 2 assms [OF 1 Cons.prems(2)]] show ?case .
qed

lemma push_asset_Inr:
  assumes "push_asset v a = Inr v'"
  shows "\<exists>es ps e. getIn AssetList v = Inr (JArr es ps) \<and> map_of ps ''push'' = None
      \<and> asset_entry a = Inr e \<and> putIn AssetList (JArr (es @ [e]) ps) v = Inr v'"
proof -
  from assms obtain l e where l: "getIn AssetList v = Inr l" and e: "asset_entry a = Inr e"
    and r: "(case l of JArr es ps \<Rightarrow>
               if map_of ps ''push'' \<noteq> None then Inl TypeError
               else putIn AssetList (JArr (es @ [e]) ps) v
             | _ \<Rightarrow> Inl TypeError) = Inr v'"
    by (auto simp: push_asset_def andThen_Inr_iff)
  from r obtain es ps where "l = JArr es ps" by (cases l) auto
  with l e r show ?thesis by (auto split: if_splits)
qed




lemma set_both_Inr [simp]:
  "set_both f p v vso vsix = Inr (a, b) \<longleftrightarrow> putMember vso (Key f) v = Inr a \<and> putIn p v vsix = Inr b"
  by (auto simp: set_both_def andThen_Inr_iff)

lemma set_vsix_Inr [simp]:
  "set_vsix p v vso vsix = Inr (a, b) \<longleftrightarrow> a = vso \<and> putIn p v vsix = Inr b"
  by (auto simp: set_vsix_def andThen_Inr_iff)

lemma merge_field_Inr:
  assumes "merge_field c f v vso = Inr vso'"
  shows "\<exists>vso1 x. (vso1 = vso \<or> putMember vso (Key f) (JObj []) = Inr vso1)
           \<and> putMember vso1 (Key f) x = Inr vso'"
  using assms by (auto simp: merge_field_def andThen_Inr_iff split: if_splits)

lemma mergeKey_vsix:
  assumes "mergeKey key v vso vsix = Inr (vso', vsix')"
  shows "vsix' = vsix
     \<or> (\<exists>p x. vsix_target (toLowerCase key) = Some p \<and> putIn p x vsix = Inr vsix')
     \<or> (\<exists>v1 as. vsix_target (toLowerCase key) = Some [Key ''PackageManifest'', Key ''Assets'']
           \<and> putIn [Key ''PackageManifest'', Key ''Assets''] (JArr [JObj [(''Asset'', JArr [] [])]] []) vsix = Inr v1
           \<and> forEach push_asset as v1 = Inr vsix')"
  using assms
  by (auto simp: mergeKey_def vsix_target_def Let_def andThen_Inr_iff split: if_splits)

lemma mergeKey_vso:
  assumes "mergeKey key v vso vsix = Inr (vso', vsix')"
  shows "vso' = vso
     \<or> (\<exists>f vso1 x. vso_target (toLowerCase key) = Some f
           \<and> (vso1 = vso \<or> putMember vso (Key f) (JObj []) = Inr vso1)
           \<and> putMember vso1 (Key f) x = Inr vso')"
  using assms
  by (auto simp: mergeKey_def vso_target_def Let_def andThen_Inr_iff split: if_splits
      dest!: merge_field_Inr)
























section \<open>Properties of the overwrite fields\<close>


lemma forEach_append: "forEach f (xs @ ys) s = andThen (forEach f xs s) (forEach f ys)"
  by (induction xs arbitrary: s) (auto simp: andThen_def split: sum.splits)

lemma forEach_map: "forEach g (map h xs) s = forEach (\<lambda>s x. g s (h x)) xs s"
  by (induction xs arbitrary: s) (auto simp: andThen_def split: sum.splits)

lemma sep_path_append_right: "sep_path p r \<Longrightarrow> sep_path p (r @ q)"
  by (induction p r rule: sep_path.induct) auto

lemma is_object_at_prefix: "is_object_at (p @ q) j \<Longrightarrow> is_object_at p j"
  by (auto simp: is_object_at_def getIn_append andThen_def split: sum.splits dest: getIn_isObject)

lemma putIn_safe:
  "putIn p v j = Inr j' \<Longrightarrow> safe p s \<Longrightarrow> is_object_at s j \<Longrightarrow> is_object_at s j'"
proof (induction p v j arbitrary: j' s rule: putIn.induct)
  case (1 v j)
  then show ?case by simp
next
  case (2 k v j)
  show ?case
  proof (cases s)
    case Nil
    with 2 show ?thesis by (auto simp: is_object_at_def dest: putMember_isObject)
  next
    case (Cons k' s')
    with 2 have "sep k k'" by simp
    from putMember_other [OF _ this, of j v j'] 2 Cons show ?thesis
      by (simp add: is_object_at_def)
  qed
next
  case (3 k k1 ks v j)
  from "3.prems"(1) obtain c c' where c: "getMember j k = Inr c"
    and p: "putIn (k1 # ks) v c = Inr c'" and w: "putMember j k c' = Inr j'"
    by (auto simp: andThen_Inr_iff)
  show ?case
  proof (cases s)
    case Nil
    with "3.prems"(3) w show ?thesis by (auto simp: is_object_at_def dest: putMember_isObject)
  next
    case (Cons k' s')
    show ?thesis
    proof (cases "sep k k'")
      case True
      from putMember_other [OF w True] "3.prems"(3) Cons show ?thesis
        by (simp add: is_object_at_def)
    next
      case False
      with "3.prems"(2) Cons have kk: "k' = k" and s: "safe (k1 # ks) s'" by auto
      from "3.prems"(3) Cons kk c have o: "is_object_at s' c"
        by (simp add: is_object_at_def)
      have ih: "is_object_at s' c'" using "3.IH" [OF p s o] .
      have "isObject j"
        using "3.prems"(3) by (auto simp: is_object_at_def split: sum.splits dest: getIn_isObject)
      from putMember_same [OF this, of k c'] w have "getMember j' k = Inr c'" by auto
      with ih Cons kk show ?thesis by (simp add: is_object_at_def)
    qed
  qed
qed

lemma as_index_names [simp]:
  "as_index ''PackageManifest'' = None" "as_index ''Metadata'' = None"
  "as_index ''Identity'' = None" "as_index ''$'' = None" "as_index ''Id'' = None"
  "as_index ''Version'' = None" "as_index ''Publisher'' = None"
  "as_index ''DisplayName'' = None" "as_index ''Description'' = None" "as_index ''_'' = None"
  "as_index ''ReleaseNotes'' = None" "as_index ''Tags'' = None" "as_index ''VSOFlags'' = None"
  "as_index ''Categories'' = None" "as_index ''Assets'' = None" "as_index ''Asset'' = None"
  by (simp_all add: as_index_def is_digit_def)

lemma targets_sep:
  "vsix_target k = Some p \<Longrightarrow> vsix_target k' = Some p' \<Longrightarrow> k \<noteq> k' \<Longrightarrow> sep_path p p'"
  by (auto simp: vsix_target_def IdentityAttrs_def Metadata0_def sep_def split: if_splits)



lemma targets_safe:
  assumes "vsix_target k = Some p"
  shows "safe p IdentityAttrs" and "safe p (Metadata0 @ [Key ''DisplayName''])"
    and "safe p (Metadata0 @ [Key ''Description'', Idx 0])"
  using assms
  by (auto simp: vsix_target_def IdentityAttrs_def Metadata0_def sep_def split: if_splits)

lemma safe_append: "safe p s \<Longrightarrow> safe (p @ q) s"
  by (induction p s rule: safe.induct) auto

lemma putIn_shape:
  assumes "putIn (p @ q) x vsix = Inr vsix'" and "vsix_target k = Some p" and "package_shape vsix"
  shows "package_shape vsix'"
  using assms(3) putIn_safe [OF assms(1) safe_append [OF targets_safe(1) [OF assms(2)]]]
    putIn_safe [OF assms(1) safe_append [OF targets_safe(2) [OF assms(2)]]]
    putIn_safe [OF assms(1) safe_append [OF targets_safe(3) [OF assms(2)]]]
  by (simp add: package_shape_def)

lemma vsix_target_assets: "vsix_target ''assets'' = Some [Key ''PackageManifest'', Key ''Assets'']"
  by (simp add: vsix_target_def)

lemma push_asset_shape:
  assumes "push_asset v a = Inr v'" and "package_shape v"
  shows "package_shape v'"
proof -
  from push_asset_Inr [OF assms(1)] obtain x where
    "putIn ([Key ''PackageManifest'', Key ''Assets''] @ [Idx 0, Key ''Asset'']) x v = Inr v'"
    by (auto simp: AssetList_def)
  from putIn_shape [OF this vsix_target_assets assms(2)] show ?thesis .
qed

lemma push_assets_shape:
  "forEach push_asset as v = Inr v' \<Longrightarrow> package_shape v \<Longrightarrow> package_shape v'"
  by (rule forEach_invariant [where f = push_asset and I = package_shape])
    (auto intro: push_asset_shape)

lemma mergeKey_inv:
  assumes "mergeKey key v vso vsix = Inr (vso', vsix')" and "isObject vso" and "package_shape vsix"
  shows "isObject vso' \<and> package_shape vsix'"
proof
  from mergeKey_vso [OF assms(1)] assms(2) show "isObject vso'"
    by (auto dest: putMember_isObject)
  from mergeKey_vsix [OF assms(1)] show "package_shape vsix'"
  proof (elim disjE exE conjE)
    assume "vsix' = vsix"
    with assms(3) show ?thesis by simp
  next
    fix p x
    assume "vsix_target (toLowerCase key) = Some p" "putIn p x vsix = Inr vsix'"
    with putIn_shape [of p "[]" x vsix vsix'] assms(3) show ?thesis by simp
  next
    fix v1 as
    assume "putIn [Key ''PackageManifest'', Key ''Assets''] (JArr [JObj [(''Asset'', JArr [] [])]] []) vsix = Inr v1"
      and f: "forEach push_asset as v1 = Inr vsix'"
    with putIn_shape [of "[Key ''PackageManifest'', Key ''Assets'']" "[]" _ vsix v1, OF _ vsix_target_assets assms(3)]
    have "package_shape v1" by simp
    from push_assets_shape [OF f this] show ?thesis .
  qed
qed

lemma push_asset_frame:
  assumes "push_asset v a = Inr v'" and "sep_path [Key ''PackageManifest'', Key ''Assets''] r"
  shows "getIn r v' = getIn r v"
proof -
  from push_asset_Inr [OF assms(1)] obtain x where p: "putIn AssetList x v = Inr v'" by blast
  have "sep_path AssetList r"
    unfolding AssetList_split2 using assms(2) by (rule sep_path_append)
  then show ?thesis by (rule putIn_other [OF p])
qed

lemma push_assets_frame:
  assumes "sep_path [Key ''PackageManifest'', Key ''Assets''] r"
  shows "forEach push_asset as v = Inr v' \<Longrightarrow> getIn r v' = getIn r v"
proof (induction as arbitrary: v)
  case Nil
  then show ?case by simp
next
  case (Cons a as)
  then obtain v1 where 1: "push_asset v a = Inr v1" and 2: "forEach push_asset as v1 = Inr v'"
    by (auto simp: andThen_Inr_iff)
  from Cons.IH [OF 2] push_asset_frame [OF 1 assms] show ?case by simp
qed

lemma mergeKey_other_vsix:
  assumes "mergeKey key v vso vsix = Inr (vso', vsix')" and "vsix_target f = Some p"
    and "\<not> declares f (key, v)"
  shows "getIn (p @ q) vsix' = getIn (p @ q) vsix"
proof (cases "toLowerCase key = f")
  case True
  with assms(3) have "f = ''assets''" "\<not> isArray v" by (auto simp: declares_def)
  with True assms(1) show ?thesis by (simp add: mergeKey_def)
next
  case False
  from mergeKey_vsix [OF assms(1)] show ?thesis
  proof (elim disjE exE conjE)
    assume "vsix' = vsix"
    then show ?thesis by simp
  next
    fix p' x
    assume t: "vsix_target (toLowerCase key) = Some p'" and w: "putIn p' x vsix = Inr vsix'"
    from targets_sep [OF t assms(2) False] have "sep_path p' (p @ q)"
      by (rule sep_path_append_right)
    from putIn_other [OF w this] show ?thesis .
  next
    fix v1 as
    assume t: "vsix_target (toLowerCase key) = Some [Key ''PackageManifest'', Key ''Assets'']"
      and w: "putIn [Key ''PackageManifest'', Key ''Assets''] (JArr [JObj [(''Asset'', JArr [] [])]] []) vsix = Inr v1"
      and f: "forEach push_asset as v1 = Inr vsix'"
    from targets_sep [OF t assms(2) False]
    have s: "sep_path [Key ''PackageManifest'', Key ''Assets''] (p @ q)"
      by (rule sep_path_append_right)
    from putIn_other [OF w s] push_assets_frame [OF s f] show ?thesis by simp
  qed
qed

lemma vso_target_inj: "vso_target k = Some n \<Longrightarrow> vso_target k' = Some n \<Longrightarrow> k = k'"
  by (auto simp: vso_target_def split: if_splits)

lemma vso_target_index: "vso_target k = Some n \<Longrightarrow> as_index n = None"
  by (auto simp: vso_target_def as_index_def is_digit_def split: if_splits)

lemma mergeKey_other_vso:
  assumes "mergeKey key v vso vsix = Inr (vso', vsix')" and "vso_target f = Some n"
    and "toLowerCase key \<noteq> f"
  shows "getMember vso' (Key n) = getMember vso (Key n)"
proof -
  have s: "sep (Key n') (Key n)" if "vso_target (toLowerCase key) = Some n'" for n'
    using vso_target_inj [OF that, of f] vso_target_index [OF that] assms(2,3)
    by (auto simp: sep_def)
  from mergeKey_vso [OF assms(1)] show ?thesis
  proof (elim disjE exE conjE)
    fix g vso1 x
    assume t: "vso_target (toLowerCase key) = Some g" and 2: "putMember vso1 (Key g) x = Inr vso'"
      and 1: "putMember vso (Key g) (JObj []) = Inr vso1"
    from putMember_other [OF 1 s [OF t]] putMember_other [OF 2 s [OF t]] show ?thesis by simp
  next
    fix g vso1 x
    assume t: "vso_target (toLowerCase key) = Some g" and 2: "putMember vso1 (Key g) x = Inr vso'"
      and 1: "vso1 = vso"
    from putMember_other [OF 2 s [OF t]] 1 show ?thesis by simp
  qed simp
qed



lemma merge_partial_calls:
  "merge_partial env acc p = Inr acc' \<longleftrightarrow>
   (\<exists>r keys. resolve_assets env p = Inr r \<and> object_keys r = Inr keys
      \<and> forEach call (merge_calls r) acc = Inr acc')"
proof -
  have "forEach (\<lambda>(vso, vsix) key. mergeKey key (member r (Key key)) vso vsix) keys acc
      = forEach call (map (\<lambda>key. (key, member r (Key key))) keys) acc" for r keys
    unfolding forEach_map
    by (rule arg_cong [where f = "\<lambda>f. forEach f keys acc"]) (auto simp: fun_eq_iff call_def)
  then show ?thesis
    by (auto simp: merge_partial_def andThen_Inr_iff merge_calls_def)
qed

lemma merge_partials_calls:
  "forEach (merge_partial env) ps acc = Inr acc' \<Longrightarrow>
   \<exists>rs. list_all2 (\<lambda>p r. resolve_assets env p = Inr r) ps rs
      \<and> forEach call (concat (map merge_calls rs)) acc = Inr acc'"
proof (induction ps arbitrary: acc)
  case Nil
  then show ?case by simp
next
  case (Cons p ps)
  then obtain acc1 where 1: "merge_partial env acc p = Inr acc1"
    and 2: "forEach (merge_partial env) ps acc1 = Inr acc'"
    by (auto simp: andThen_Inr_iff)
  from 1 obtain r where r: "resolve_assets env p = Inr r"
    and c: "forEach call (merge_calls r) acc = Inr acc1"
    by (auto simp: merge_partial_calls)
  from Cons.IH [OF 2] obtain rs where
    l: "list_all2 (\<lambda>p r. resolve_assets env p = Inr r) ps rs"
    and f: "forEach call (concat (map merge_calls rs)) acc1 = Inr acc'" by blast
  have "list_all2 (\<lambda>p r. resolve_assets env p = Inr r) (p # ps) (r # rs)"
    using r l by simp
  moreover have "forEach call (concat (map merge_calls (r # rs))) acc = Inr acc'"
    using c f by (simp add: forEach_append)
  ultimately show ?case by blast
qed

lemma call_inv:
  "call s d = Inr s' \<Longrightarrow> isObject (fst s) \<and> package_shape (snd s) \<Longrightarrow>
   isObject (fst s') \<and> package_shape (snd s')"
  using mergeKey_inv [of "fst d" "snd d" "fst s" "snd s" "fst s'" "snd s'"]
  by (simp add: call_def)

lemma calls_inv:
  "forEach call ds s = Inr s' \<Longrightarrow> isObject (fst s) \<and> package_shape (snd s) \<Longrightarrow>
   isObject (fst s') \<and> package_shape (snd s')"
  by (rule forEach_invariant [where f = call and I = "\<lambda>s. isObject (fst s) \<and> package_shape (snd s)"])
    (auto dest: call_inv)

lemma calls_other:
  assumes "\<forall>d\<in>set ds. \<not> declares f d"
  shows "forEach call ds s = Inr s' \<Longrightarrow>
     (\<forall>n. vso_target f = Some n \<longrightarrow> getMember (fst s') (Key n) = getMember (fst s) (Key n))
   \<and> (\<forall>p q. vsix_target f = Some p \<longrightarrow> getIn (p @ q) (snd s') = getIn (p @ q) (snd s))"
  using assms
proof (induction ds arbitrary: s)
  case Nil
  then show ?case by simp
next
  case (Cons d ds)
  then obtain s1 where 1: "call s d = Inr s1" and 2: "forEach call ds s1 = Inr s'"
    by (auto simp: andThen_Inr_iff)
  from Cons.prems(2) have nd: "\<not> declares f d" and rest: "\<forall>d\<in>set ds. \<not> declares f d" by auto
  have m: "mergeKey (fst d) (snd d) (fst s) (snd s) = Inr (fst s1, snd s1)"
    using 1 by (simp add: call_def)
  have a: "getMember (fst s1) (Key n) = getMember (fst s) (Key n)" if t: "vso_target f = Some n" for n
  proof -
    have "f \<noteq> ''assets''" using t by (auto simp: vso_target_def split: if_splits)
    with nd have "toLowerCase (fst d) \<noteq> f" by (simp add: declares_def)
    from mergeKey_other_vso [OF m t this] show ?thesis .
  qed
  have b: "getIn (p @ q) (snd s1) = getIn (p @ q) (snd s)" if "vsix_target f = Some p" for p q
    using mergeKey_other_vsix [OF m that] nd by simp
  from Cons.IH [OF 2 rest] a b show ?case by simp
qed

lemma last_declared:
  assumes "forEach call (pre @ [d] @ post) s = Inr s'"
    and "isObject (fst s) \<and> package_shape (snd s)"
    and "\<forall>e\<in>set post. \<not> declares f e"
  shows "\<exists>s1 s2. isObject (fst s1) \<and> package_shape (snd s1) \<and> call s1 d = Inr s2
     \<and> (\<forall>n. vso_target f = Some n \<longrightarrow> getMember (fst s') (Key n) = getMember (fst s2) (Key n))
     \<and> (\<forall>p q. vsix_target f = Some p \<longrightarrow> getIn (p @ q) (snd s') = getIn (p @ q) (snd s2))"
proof -
  from assms(1) obtain s1 s2 where 1: "forEach call pre s = Inr s1" and 2: "call s1 d = Inr s2"
    and 3: "forEach call post s2 = Inr s'"
    by (auto simp: forEach_append andThen_Inr_iff)
  from calls_inv [OF 1 assms(2)] calls_other [OF assms(3) 3] 2 show ?thesis by blast
qed



lemma put_read_vso:
  "putMember vso (Key n) v = Inr vso' \<Longrightarrow> isObject vso \<Longrightarrow> getMember vso' (Key n) = Inr v"
  using putMember_same [of vso "Key n" v] by auto

lemma put_read_vsix:
  "putIn (q @ [k]) v vsix = Inr vsix' \<Longrightarrow> is_object_at q vsix \<Longrightarrow> getIn (q @ [k]) vsix' = Inr v"
proof -
  assume p: "putIn (q @ [k]) v vsix = Inr vsix'" and o: "is_object_at q vsix"
  from o obtain parent where "getIn q vsix = Inr parent" "isObject parent"
    by (auto simp: is_object_at_def split: sum.splits)
  from putIn_same [OF this, of k v] p show ?thesis by auto
qed

lemma shape_facts:
  assumes "package_shape vsix"
  shows "is_object_at IdentityAttrs vsix" and "is_object_at Metadata0 vsix"
    and "is_object_at (Metadata0 @ [Key ''DisplayName'']) vsix"
    and "is_object_at (Metadata0 @ [Key ''Description'', Idx 0]) vsix"
    and "is_object_at [Key ''PackageManifest''] vsix"
proof -
  from assms show i: "is_object_at IdentityAttrs vsix"
    and "is_object_at (Metadata0 @ [Key ''DisplayName'']) vsix"
    and "is_object_at (Metadata0 @ [Key ''Description'', Idx 0]) vsix"
    by (simp_all add: package_shape_def)
  from i show m: "is_object_at Metadata0 vsix"
    unfolding IdentityAttrs_def by (rule is_object_at_prefix)
  have "is_object_at ([Key ''PackageManifest''] @ [Key ''Metadata'', Idx 0]) vsix"
    using m by (simp add: Metadata0_def)
  then show "is_object_at [Key ''PackageManifest''] vsix" by (rule is_object_at_prefix)
qed

lemma push_assets_entries:
  "forEach push_asset as v = Inr v' \<Longrightarrow> getIn AssetList v = Inr (JArr es0 ps) \<Longrightarrow>
   \<exists>es. list_all2 (\<lambda>a e. asset_entry a = Inr e) as es \<and> getIn AssetList v' = Inr (JArr (es0 @ es) ps)"
proof (induction as arbitrary: v es0)
  case Nil
  then show ?case by simp
next
  case (Cons a as)
  then obtain v1 where 1: "push_asset v a = Inr v1" and 2: "forEach push_asset as v1 = Inr v'"
    by (auto simp: andThen_Inr_iff)
  from push_asset_Inr [OF 1] Cons.prems(2) obtain e where e: "asset_entry a = Inr e"
    and p: "putIn AssetList (JArr (es0 @ [e]) ps) v = Inr v1" by auto
  have "isObject (JArr es0 ps)" by (simp add: isObject_def)
  from putIn_replace [OF Cons.prems(2) this, of "JArr (es0 @ [e]) ps"] p
  have g: "getIn AssetList v1 = Inr (JArr (es0 @ [e]) ps)" by (auto simp: AssetList_def)
  from Cons.IH [OF 2 g] obtain es where
    "list_all2 (\<lambda>a e. asset_entry a = Inr e) as es" "getIn AssetList v' = Inr (JArr ((es0 @ [e]) @ es) ps)"
    by blast
  with e have "list_all2 (\<lambda>a e. asset_entry a = Inr e) (a # as) (e # es)
      \<and> getIn AssetList v' = Inr (JArr (es0 @ e # es) ps)" by simp
  then show ?case by blast
qed

lemma declared_value:
  assumes d: "declares f (key, val)" and o: "isObject vso" and s: "package_shape vsix"
    and m: "mergeKey key val vso vsix = Inr (vso', vsix')"
  shows
    "(f = ''namespace'' \<longrightarrow> getMember vso' (Key ''namespace'') = Inr val
        \<and> getIn (IdentityAttrs @ [Key ''Id'']) vsix' = Inr val)
   \<and> (f = ''version'' \<longrightarrow> getMember vso' (Key ''version'') = Inr val
        \<and> getIn (IdentityAttrs @ [Key ''Version'']) vsix' = Inr val)
   \<and> (f = ''name'' \<longrightarrow> getMember vso' (Key ''name'') = Inr val
        \<and> getIn (Metadata0 @ [Key ''DisplayName'', Idx 0]) vsix' = Inr val)
   \<and> (f = ''description'' \<longrightarrow> getMember vso' (Key ''description'') = Inr val
        \<and> getIn (Metadata0 @ [Key ''Description'', Idx 0, Key ''_'']) vsix' = Inr val)
   \<and> (f = ''publisher'' \<longrightarrow> getIn (IdentityAttrs @ [Key ''Publisher'']) vsix' = Inr val)
   \<and> (f = ''releasenotes'' \<longrightarrow> getIn (Metadata0 @ [Key ''ReleaseNotes'']) vsix' = Inr (JArr [val] []))
   \<and> (f = ''tags'' \<longrightarrow>
        (\<exists>v. joined val = Inr v \<and> getIn (Metadata0 @ [Key ''Tags'']) vsix' = Inr (JArr [v] [])))
   \<and> (f = ''vsoflags'' \<longrightarrow>
        (\<exists>v. joined val = Inr v \<and> getIn (Metadata0 @ [Key ''VSOFlags'']) vsix' = Inr (JArr [v] [])))
   \<and> (f = ''categories'' \<longrightarrow>
        (\<exists>v. joined val = Inr v \<and> getIn (Metadata0 @ [Key ''Categories'']) vsix' = Inr (JArr [v] [])))
   \<and> (f = ''baseuri'' \<longrightarrow> getMember vso' (Key ''baseUri'') = Inr val)
   \<and> (f = ''assets'' \<longrightarrow>
        (\<exists>as ps es. val = JArr as ps \<and> list_all2 (\<lambda>a e. asset_entry a = Inr e) as es
           \<and> getIn ([Key ''PackageManifest'', Key ''Assets''] @ [Idx 0, Key ''Asset'']) vsix' = Inr (JArr es [])))"
proof -
  note sh = shape_facts [OF s]
  have k: "toLowerCase key = f" using d by (simp add: declares_def)
  have 1: "getMember vso' (Key ''namespace'') = Inr val
        \<and> getIn (IdentityAttrs @ [Key ''Id'']) vsix' = Inr val" if "f = ''namespace''"
    using m k that o sh(1) by (auto simp: mergeKey_def intro: put_read_vso put_read_vsix)
  have 2: "getMember vso' (Key ''version'') = Inr val
        \<and> getIn (IdentityAttrs @ [Key ''Version'']) vsix' = Inr val" if "f = ''version''"
    using m k that o sh(1) by (auto simp: mergeKey_def intro: put_read_vso put_read_vsix)
  have 3: "getMember vso' (Key ''name'') = Inr val
        \<and> getIn (Metadata0 @ [Key ''DisplayName'', Idx 0]) vsix' = Inr val" if "f = ''name''"
    using m k that o sh(3)
      put_read_vsix [of "Metadata0 @ [Key ''DisplayName'']" "Idx 0" val vsix vsix']
    by (auto simp: mergeKey_def intro: put_read_vso)
  have 4: "getMember vso' (Key ''description'') = Inr val
        \<and> getIn (Metadata0 @ [Key ''Description'', Idx 0, Key ''_'']) vsix' = Inr val"
    if "f = ''description''"
    using m k that o sh(4)
      put_read_vsix [of "Metadata0 @ [Key ''Description'', Idx 0]" "Key ''_''" val vsix vsix']
    by (auto simp: mergeKey_def intro: put_read_vso)
  have 5: "getIn (IdentityAttrs @ [Key ''Publisher'']) vsix' = Inr val" if "f = ''publisher''"
    using m k that sh(1) by (auto simp: mergeKey_def intro: put_read_vsix)
  have 6: "getIn (Metadata0 @ [Key ''ReleaseNotes'']) vsix' = Inr (JArr [val] [])"
    if "f = ''releasenotes''"
    using m k that sh(2) by (auto simp: mergeKey_def intro: put_read_vsix)
  have 7: "\<exists>v. joined val = Inr v \<and> getIn (Metadata0 @ [Key ''Tags'']) vsix' = Inr (JArr [v] [])"
    if "f = ''tags''"
    using m k that sh(2) by (auto simp: mergeKey_def andThen_Inr_iff intro: put_read_vsix)
  have 8: "\<exists>v. joined val = Inr v \<and> getIn (Metadata0 @ [Key ''VSOFlags'']) vsix' = Inr (JArr [v] [])"
    if "f = ''vsoflags''"
    using m k that sh(2) by (auto simp: mergeKey_def andThen_Inr_iff intro: put_read_vsix)
  have 9: "\<exists>v. joined val = Inr v \<and> getIn (Metadata0 @ [Key ''Categories'']) vsix' = Inr (JArr [v] [])"
    if "f = ''categories''"
    using m k that sh(2) by (auto simp: mergeKey_def andThen_Inr_iff intro: put_read_vsix)
  have 10: "getMember vso' (Key ''baseUri'') = Inr val" if "f = ''baseuri''"
    using m k that o by (auto simp: mergeKey_def andThen_Inr_iff intro: put_read_vso)
  have 11: "\<exists>as ps es. val = JArr as ps \<and> list_all2 (\<lambda>a e. asset_entry a = Inr e) as es
           \<and> getIn ([Key ''PackageManifest'', Key ''Assets''] @ [Idx 0, Key ''Asset'']) vsix' = Inr (JArr es [])"
    if f: "f = ''assets''"
  proof -
    from d f obtain as ps where v: "val = JArr as ps" by (cases val) (auto simp: declares_def isArray_def)
    let ?A0 = "JArr [JObj [(''Asset'', JArr [] [])]] []"
    from m k f v obtain v1 where
      p: "putIn ([Key ''PackageManifest''] @ [Key ''Assets'']) ?A0 vsix = Inr v1"
      and l: "forEach push_asset as v1 = Inr vsix'"
      by (auto simp: mergeKey_def isArray_def andThen_Inr_iff split: if_splits)
    from put_read_vsix [OF p sh(5)]
    have g: "getIn [Key ''PackageManifest'', Key ''Assets''] v1 = Inr ?A0" by simp
    have "getIn AssetList v1
        = andThen (getIn [Key ''PackageManifest'', Key ''Assets''] v1) (getIn [Idx 0, Key ''Asset''])"
      unfolding AssetList_split2 by (rule getIn_append)
    then have g1: "getIn AssetList v1 = Inr (JArr [] [])"
      unfolding g by (simp add: lookup_def)
    from push_assets_entries [OF l g1] v show ?thesis
      by (auto simp: AssetList_def)
  qed
  from 1 2 3 4 5 6 7 8 9 10 11 show ?thesis by blast
qed



lemma joined_cases:
  "joined val = Inr v \<Longrightarrow>
   (isArray val \<longrightarrow> (\<exists>s. join_comma val = Inr s \<and> v = JStr s)) \<and> (\<not> isArray val \<longrightarrow> v = val)"
  by (auto simp: joined_def andThen_Inr_iff split: if_splits)

lemma list_all2_set2:
  "list_all2 P xs ys \<Longrightarrow> y \<in> set ys \<Longrightarrow> \<exists>x\<in>set xs. P x y"
  by (induction rule: list_all2_induct) auto


text \<open>
  Claim C2, as stated: for each overwrite field, \<open>assets\<close> included, the final value is
  the one contributed by the last partial manifest that declared the field, and the
  values of earlier partial manifests are replaced. The rule of \<open>assets\<close> acts on an
  array only: when the last manifest that declares \<open>assets\<close> gives it a value that is no
  array (here the string \<open>none\<close>), the asset list of the earlier manifest stays.
\<close>

theorem assets_not_replaced_counterexample:
  "merge (example_env assets_template
            [(''a'', JObj [(''assets'', JArr [JObj [(''type'', JStr ''png''), (''path'', JStr ''a.png'')]] [])]),
             (''b'', JObj [(''assets'', JStr ''none'')])]
            [(''/r/a.json'', ''a''), (''/r/b.json'', ''b'')])
     = ([], Fulfilled (JObj
          [(''vsoManifest'', JObj [(''__meta_root'', JStr ''/r'')]),
           (''vsixManifest'',
              JObj [(''PackageManifest'', JObj [(''Assets'', JArr [JObj [(''Asset'',
                       JArr [JObj [(''$'', JObj [(''Type'', JStr ''png''), (''d:Source'', JStr ''File''),
                                                 (''Path'', JStr ''a.png'')])]] [])]] [])]),
                    (''__meta_root'', JStr ''/r'')])]))"
  by (simp add: assets_template_def merge_eval resolve_asset_def asset_entry_def push_asset_def
      AssetList_def slashes_def)

text \<open>
  Claim C2, amended. Partial manifests are merged in order into accumulators of the
  expected shape, and the merge succeeds. Take the last call of \<open>mergeKey\<close> that declares
  a field \<open>f\<close>: its key is \<open>f\<close> in some letter case and, for \<open>assets\<close>, its value is an
  array. Then the final accumulators hold the value of that call and nothing of earlier
  declarations: \<open>namespace\<close>, \<open>version\<close>, \<open>name\<close> and \<open>description\<close> in the service manifest
  and in \<open>Identity.Id\<close>, \<open>Identity.Version\<close>, \<open>DisplayName[0]\<close> and \<open>Description[0]._\<close>;
  \<open>publisher\<close> in \<open>Identity.Publisher\<close>; \<open>releaseNotes\<close> as a one-element list;
  \<open>tags\<close>, \<open>vsoFlags\<close> and \<open>categories\<close> as a one-element list of the value, an array
  being joined with commas into one string first; \<open>baseUri\<close> in the service manifest;
  and \<open>assets\<close> as the list of the entries of the declared assets.
\<close>

theorem last_declaration_wins:
  assumes "forEach (merge_partial env) partials (vso0, vsix0) = Inr (vso, vsix)"
    and "isObject vso0" and "package_shape vsix0"
    and "partials = earlier @ [p] @ later"
    and "resolve_assets env p = Inr r"
    and "merge_calls r = before @ [(key, val)] @ after"
    and "declares f (key, val)"
    and "\<forall>d\<in>set after. \<not> declares f d"
    and "\<forall>q\<in>set later. \<forall>r'. resolve_assets env q = Inr r' \<longrightarrow> (\<forall>d\<in>set (merge_calls r'). \<not> declares f d)"
  shows
    "(f = ''namespace'' \<longrightarrow> getMember vso (Key ''namespace'') = Inr val
        \<and> getIn (IdentityAttrs @ [Key ''Id'']) vsix = Inr val)
   \<and> (f = ''version'' \<longrightarrow> getMember vso (Key ''version'') = Inr val
        \<and> getIn (IdentityAttrs @ [Key ''Version'']) vsix = Inr val)
   \<and> (f = ''name'' \<longrightarrow> getMember vso (Key ''name'') = Inr val
        \<and> getIn (Metadata0 @ [Key ''DisplayName'', Idx 0]) vsix = Inr val)
   \<and> (f = ''description'' \<longrightarrow> getMember vso (Key ''description'') = Inr val
        \<and> getIn (Metadata0 @ [Key ''Description'', Idx 0, Key ''_'']) vsix = Inr val)
   \<and> (f = ''publisher'' \<longrightarrow> getIn (IdentityAttrs @ [Key ''Publisher'']) vsix = Inr val)
   \<and> (f = ''releasenotes'' \<longrightarrow> getIn (Metadata0 @ [Key ''ReleaseNotes'']) vsix = Inr (JArr [val] []))
   \<and> (f = ''tags'' \<longrightarrow>
        (\<exists>v. joined val = Inr v \<and> getIn (Metadata0 @ [Key ''Tags'']) vsix = Inr (JArr [v] [])
           \<and> (isArray val \<longrightarrow> (\<exists>s. join_comma val = Inr s \<and> v = JStr s))))
   \<and> (f = ''vsoflags'' \<longrightarrow>
        (\<exists>v. joined val = Inr v \<and> getIn (Metadata0 @ [Key ''VSOFlags'']) vsix = Inr (JArr [v] [])
           \<and> (isArray val \<longrightarrow> (\<exists>s. join_comma val = Inr s \<and> v = JStr s))))
   \<and> (f = ''categories'' \<longrightarrow>
        (\<exists>v. joined val = Inr v \<and> getIn (Metadata0 @ [Key ''Categories'']) vsix = Inr (JArr [v] [])
           \<and> (isArray val \<longrightarrow> (\<exists>s. join_comma val = Inr s \<and> v = JStr s))))
   \<and> (f = ''baseuri'' \<longrightarrow> getMember vso (Key ''baseUri'') = Inr val)
   \<and> (f = ''assets'' \<longrightarrow>
        (\<exists>as ps es. val = JArr as ps \<and> list_all2 (\<lambda>a e. asset_entry a = Inr e) as es
           \<and> getIn AssetList vsix = Inr (JArr es [])))"
proof -
  from merge_partials_calls [OF assms(1)] obtain rs where
    l: "list_all2 (\<lambda>p r. resolve_assets env p = Inr r) partials rs"
    and c: "forEach call (concat (map merge_calls rs)) (vso0, vsix0) = Inr (vso, vsix)" by blast
  from l assms(4) obtain rs1 r1 rs2 where rs: "rs = rs1 @ [r1] @ rs2"
    and p1: "resolve_assets env p = Inr r1"
    and l2: "list_all2 (\<lambda>p r. resolve_assets env p = Inr r) later rs2"
    by (auto simp: list_all2_append1 list_all2_Cons1)
  from p1 assms(5) have r1: "r1 = r" by simp
  let ?pre = "concat (map merge_calls rs1) @ before"
  let ?post = "after @ concat (map merge_calls rs2)"
  have cc: "concat (map merge_calls rs) = ?pre @ [(key, val)] @ ?post"
    using rs r1 assms(6) by simp
  have np: "\<forall>e\<in>set ?post. \<not> declares f e"
  proof
    fix e assume "e \<in> set ?post"
    then consider "e \<in> set after" | r' where "r' \<in> set rs2" "e \<in> set (merge_calls r')" by auto
    then show "\<not> declares f e"
    proof cases
      case 1
      with assms(8) show ?thesis by simp
    next
      case 2
      from list_all2_set2 [OF l2 2(1)] obtain q where "q \<in> set later" "resolve_assets env q = Inr r'"
        by blast
      with assms(9) 2(2) show ?thesis by blast
    qed
  qed
  from last_declared [OF c [unfolded cc] _ np] assms(2,3) obtain s1 s2 where
    i: "isObject (fst s1)" "package_shape (snd s1)" and w: "call s1 (key, val) = Inr s2"
    and ev: "\<forall>n. vso_target f = Some n \<longrightarrow> getMember vso (Key n) = getMember (fst s2) (Key n)"
    and ex: "\<forall>p q. vsix_target f = Some p \<longrightarrow> getIn (p @ q) vsix = getIn (p @ q) (snd s2)"
    by auto
  have m: "mergeKey key val (fst s1) (snd s1) = Inr (fst s2, snd s2)"
    using w by (simp add: call_def)
  note D = declared_value [OF assms(7) i m]
  have v: "getMember vso (Key n) = getMember (fst s2) (Key n)" if "vso_target f = Some n" for n
    using ev that by simp
  have x: "getIn p vsix = getIn p (snd s2)" if "vsix_target f = Some p" for p
    using ex [rule_format, OF that, of "[]"] by simp
  have xa: "getIn AssetList vsix
      = getIn ([Key ''PackageManifest'', Key ''Assets''] @ [Idx 0, Key ''Asset'']) (snd s2)"
    if "f = ''assets''"
    using ex [rule_format, of "[Key ''PackageManifest'', Key ''Assets'']" "[Idx 0, Key ''Asset'']"] that
    by (simp add: vsix_target_def AssetList_def)
  have 1: "getMember vso (Key ''namespace'') = Inr val
        \<and> getIn (IdentityAttrs @ [Key ''Id'']) vsix = Inr val" if "f = ''namespace''"
    using D that v [of "''namespace''"] x [of "IdentityAttrs @ [Key ''Id'']"]
    by (simp add: vso_target_def vsix_target_def)
  have 2: "getMember vso (Key ''version'') = Inr val
        \<and> getIn (IdentityAttrs @ [Key ''Version'']) vsix = Inr val" if "f = ''version''"
    using D that v [of "''version''"] x [of "IdentityAttrs @ [Key ''Version'']"]
    by (simp add: vso_target_def vsix_target_def)
  have 3: "getMember vso (Key ''name'') = Inr val
        \<and> getIn (Metadata0 @ [Key ''DisplayName'', Idx 0]) vsix = Inr val" if "f = ''name''"
    using D that v [of "''name''"] x [of "Metadata0 @ [Key ''DisplayName'', Idx 0]"]
    by (simp add: vso_target_def vsix_target_def)
  have 4: "getMember vso (Key ''description'') = Inr val
        \<and> getIn (Metadata0 @ [Key ''Description'', Idx 0, Key ''_'']) vsix = Inr val"
    if "f = ''description''"
    using D that v [of "''description''"] x [of "Metadata0 @ [Key ''Description'', Idx 0, Key ''_'']"]
    by (simp add: vso_target_def vsix_target_def)
  have 5: "getIn (IdentityAttrs @ [Key ''Publisher'']) vsix = Inr val" if "f = ''publisher''"
    using D that x [of "IdentityAttrs @ [Key ''Publisher'']"] by (simp add: vsix_target_def)
  have 6: "getIn (Metadata0 @ [Key ''ReleaseNotes'']) vsix = Inr (JArr [val] [])"
    if "f = ''releasenotes''"
    using D that x [of "Metadata0 @ [Key ''ReleaseNotes'']"] by (simp add: vsix_target_def)
  have 7: "\<exists>v. joined val = Inr v \<and> getIn (Metadata0 @ [Key ''Tags'']) vsix = Inr (JArr [v] [])
           \<and> (isArray val \<longrightarrow> (\<exists>s. join_comma val = Inr s \<and> v = JStr s))" if "f = ''tags''"
    using D that x [of "Metadata0 @ [Key ''Tags'']"] joined_cases [of val]
    by (auto simp: vsix_target_def)
  have 8: "\<exists>v. joined val = Inr v \<and> getIn (Metadata0 @ [Key ''VSOFlags'']) vsix = Inr (JArr [v] [])
           \<and> (isArray val \<longrightarrow> (\<exists>s. join_comma val = Inr s \<and> v = JStr s))" if "f = ''vsoflags''"
    using D that x [of "Metadata0 @ [Key ''VSOFlags'']"] joined_cases [of val]
    by (auto simp: vsix_target_def)
  have 9: "\<exists>v. joined val = Inr v \<and> getIn (Metadata0 @ [Key ''Categories'']) vsix = Inr (JArr [v] [])
           \<and> (isArray val \<longrightarrow> (\<exists>s. join_comma val = Inr s \<and> v = JStr s))" if "f = ''categories''"
    using D that x [of "Metadata0 @ [Key ''Categories'']"] joined_cases [of val]
    by (auto simp: vsix_target_def)
  have 10: "getMember vso (Key ''baseUri'') = Inr val" if "f = ''baseuri''"
    using D that v [of "''baseUri''"] by (simp add: vso_target_def)
  have 11: "\<exists>as ps es. val = JArr as ps \<and> list_all2 (\<lambda>a e. asset_entry a = Inr e) as es
           \<and> getIn AssetList vsix = Inr (JArr es [])" if "f = ''assets''"
    using D that xa by simp
  from 1 2 3 4 5 6 7 8 9 10 11 show ?thesis by blast
qed


theorem last_declaration_wins_witness:
  "isObject (JObj [(''__meta_root'', JStr ''/r'')])
 \<and> package_shape shaped_template
 \<and> resolve_assets (example_env shaped_template [] []) second_partial = Inr second_partial
 \<and> merge_calls second_partial
     = [] @ [(''Name'', JStr ''second'')] @ [(''__origin'', JStr ''/r/b.json'')]
 \<and> declares ''name'' (''Name'', JStr ''second'')
 \<and> declares ''tags'' (''tags'', JArr [JStr ''a'', JStr ''b''] [])
 \<and> (\<exists>vso vsix.
       forEach (merge_partial (example_env shaped_template [] [])) [first_partial, second_partial]
         (JObj [(''__meta_root'', JStr ''/r'')], shaped_template) = Inr (vso, vsix)
     \<and> getMember vso (Key ''name'') = Inr (JStr ''second'')
     \<and> getIn (Metadata0 @ [Key ''DisplayName'', Idx 0]) vsix = Inr (JStr ''second'')
     \<and> getIn (Metadata0 @ [Key ''Tags'']) vsix = Inr (JArr [JStr ''a,b''] []))"
proof -
  let ?E = "example_env shaped_template [] []"
  let ?start = "JObj [(''__meta_root'', JStr ''/r'')]"
  let ?vso = "JObj [(''__meta_root'', JStr ''/r''), (''name'', JStr ''second'')]"
  let ?vsix = "JObj [(''PackageManifest'',
        JObj [(''Metadata'', JArr [JObj [(''Identity'', JArr [JObj [(''$'', JObj [])]] []),
                                         (''DisplayName'', JArr [JStr ''second''] []),
                                         (''Description'', JArr [JObj []] []),
                                         (''Tags'', JArr [JStr ''a,b''] [])]] []),
              (''Assets'', JArr [JObj [(''Asset'', JArr [] [])]] [])])]"
  have o: "isObject ?start" by (simp add: isObject_def)
  have sh: "package_shape shaped_template"
    by (simp add: package_shape_def is_object_at_def shaped_template_def IdentityAttrs_def
        Metadata0_def lookup_def isObject_def)
  have r1: "resolve_assets ?E first_partial = Inr first_partial"
    and r2: "resolve_assets ?E second_partial = Inr second_partial"
    by (simp_all add: resolve_assets_def getProp_def lookup_def isArray_def first_partial_def
        second_partial_def)
  have c1: "merge_calls first_partial
      = [(''name'', JStr ''first'')] @ [(''tags'', JArr [JStr ''a'', JStr ''b''] [])]
        @ [(''__origin'', JStr ''/r/a.json'')]"
    and c2: "merge_calls second_partial
      = [] @ [(''Name'', JStr ''second'')] @ [(''__origin'', JStr ''/r/b.json'')]"
    by (simp_all add: merge_calls_def first_partial_def second_partial_def lookup_def)
  have d1: "declares ''name'' (''Name'', JStr ''second'')"
    and d2: "declares ''tags'' (''tags'', JArr [JStr ''a'', JStr ''b''] [])"
    by (simp_all add: declares_def toLowerCase_def lower_char_def)
  have n1: "\<forall>d\<in>set [(''__origin'', JStr ''/r/b.json'')]. \<not> declares ''name'' d"
    and n2: "\<forall>d\<in>set [(''__origin'', JStr ''/r/a.json'')]. \<not> declares ''tags'' d"
    and n3: "\<forall>d\<in>set (merge_calls second_partial). \<not> declares ''tags'' d"
    by (simp_all add: c2 declares_def toLowerCase_def lower_char_def)
  have run: "forEach (merge_partial ?E) [first_partial, second_partial] (?start, shaped_template)
      = Inr (?vso, ?vsix)"
    by (simp add: first_partial_def second_partial_def shaped_template_def merge_eval
        Metadata0_def IdentityAttrs_def joined_def)
  have a: "getMember ?vso (Key ''name'') = Inr (JStr ''second'')
      \<and> getIn (Metadata0 @ [Key ''DisplayName'', Idx 0]) ?vsix = Inr (JStr ''second'')"
    using last_declaration_wins [OF run o sh _ r2 c2 d1 n1, of "[first_partial]" "[]"]
    by simp
  have "\<forall>q\<in>set [second_partial]. \<forall>r'. resolve_assets ?E q = Inr r' \<longrightarrow>
      (\<forall>d\<in>set (merge_calls r'). \<not> declares ''tags'' d)"
    using r2 n3 by simp
  from last_declaration_wins [OF run o sh _ r1 c1 d2 n2 this, of "[]"]
  have b: "getIn (Metadata0 @ [Key ''Tags'']) ?vsix = Inr (JArr [JStr ''a,b''] [])"
    by (simp add: joined_def isArray_def)
  from o sh r2 c2 d1 d2 run a b show ?thesis by blast
qed

end
